theory Spec2Isabelle
  imports Main
begin

section \<open>Slash-separated paths (Go packages \<open>strings\<close>, \<open>path\<close>, \<open>path/filepath\<close>, \<open>slices\<close>)\<close>

text \<open>
  Go strings are byte sequences; they are modelled as \<open>string\<close> (a list of 8-bit characters).
  The functions of this section are the library functions that \<open>cleanRelativeFilePath\<close>
  (package \<open>hub\<close>) calls. They follow the Go standard library, byte by byte.
\<close>

text \<open>\<open>strings.Split(s, sep)\<close> for a one-byte separator: the pieces of \<open>s\<close> between
  the separators; \<open>Split("", "/")\<close> is the one-element list \<open>[""]\<close>.\<close>

fun strings_Split :: "char \<Rightarrow> string \<Rightarrow> string list" where
  "strings_Split sep [] = [[]]"
| "strings_Split sep (c # cs) =
     (if c = sep then [] # strings_Split sep cs
      else (c # hd (strings_Split sep cs)) # tl (strings_Split sep cs))"

text \<open>\<open>strings.Join(elems, sep)\<close>.\<close>

fun strings_Join :: "string list \<Rightarrow> string \<Rightarrow> string" where
  "strings_Join [] sep = []"
| "strings_Join [e] sep = e"
| "strings_Join (e # es) sep = e @ sep @ strings_Join es sep"

text \<open>\<open>path.IsAbs\<close>: \<open>len(path) > 0 && path[0] == '/'\<close>.\<close>

definition path_IsAbs :: "string \<Rightarrow> bool" where
  "path_IsAbs p = (p \<noteq> [] \<and> hd p = CHR ''/'')"

text \<open>
  The inner loop of the \<open>..\<close> case of \<open>path.Clean\<close>:
  \<open>for out.w > dotdot && out.index(out.w) != '/' { out.w-- }\<close>.
  The output buffer is the list \<open>out\<close>; \<open>w\<close> is the write index.
\<close>

function backtrack :: "string \<Rightarrow> nat \<Rightarrow> nat \<Rightarrow> nat" where
  "backtrack out dotdot w =
     (if w > dotdot \<and> out ! w \<noteq> CHR ''/'' then backtrack out dotdot (w - 1) else w)"
  by pat_completeness auto
termination
  by (relation "measure (\<lambda>(out, dotdot, w). w)") auto

declare backtrack.simps [simp del]

text \<open>
  The main loop of \<open>path.Clean\<close>. \<open>rest\<close> is \<open>path[r:]\<close>, \<open>out\<close> is the
  written part of the buffer (\<open>out.w = length out\<close>), \<open>dotdot\<close> is the index where
  \<open>..\<close> must stop backtracking. The four cases are those of the \<open>switch\<close>, in its order:
  empty element, \<open>.\<close> element, \<open>..\<close> element, real element.
\<close>

function clean_loop :: "bool \<Rightarrow> string \<Rightarrow> string \<Rightarrow> nat \<Rightarrow> string" where
  "clean_loop rooted [] out dotdot = out"
| "clean_loop rooted (c # cs) out dotdot =
     (if c = CHR ''/'' then clean_loop rooted cs out dotdot
      else if c = CHR ''.'' \<and> (cs = [] \<or> hd cs = CHR ''/'') then clean_loop rooted cs out dotdot
      else if c = CHR ''.'' \<and> hd cs = CHR ''.'' \<and> (tl cs = [] \<or> hd (tl cs) = CHR ''/'') then
        (if length out > dotdot then
           clean_loop rooted (tl cs) (take (backtrack out dotdot (length out - 1)) out) dotdot
         else if \<not> rooted then
           (let out' = (if length out > 0 then out @ ''/'' else out) @ ''..''
            in clean_loop rooted (tl cs) out' (length out'))
         else clean_loop rooted (tl cs) out dotdot)
      else
        (let out' = (if rooted \<and> length out \<noteq> 1 \<or> \<not> rooted \<and> length out \<noteq> 0
                     then out @ ''/'' else out)
         in clean_loop rooted (dropWhile (\<lambda>x. x \<noteq> CHR ''/'') (c # cs))
              (out' @ takeWhile (\<lambda>x. x \<noteq> CHR ''/'') (c # cs)) dotdot))"
  by pat_completeness auto
termination
  apply (relation "measure (\<lambda>(rooted, rest, out, dotdot). length rest)")
  subgoal by simp
  subgoal by simp
  subgoal by simp
  subgoal premises p for rooted c cs out dotdot by (cases cs) simp_all
  subgoal premises p for rooted c cs out dotdot x by (cases cs) simp_all
  subgoal premises p for rooted c cs out dotdot by (cases cs) simp_all
  subgoal premises p for rooted c cs out dotdot x
    using p(1) length_dropWhile_le[of "\<lambda>x. x \<noteq> CHR ''/''" cs]
    by (simp add: less_Suc_eq_le)
  done

text \<open>\<open>path.Clean\<close>: the empty path becomes \<open>"."\<close>; a rooted path keeps its leading
  slash; an empty result becomes \<open>"."\<close>.\<close>

definition path_Clean :: "string \<Rightarrow> string" where
  "path_Clean p =
     (if p = [] then ''.''
      else let rooted = (hd p = CHR ''/'');
               out = (if rooted then clean_loop rooted (tl p) ''/'' 1
                      else clean_loop rooted p [] 0)
           in if length out = 0 then ''.'' else out)"

text \<open>The buffer that \<open>path.Join\<close> builds: leading empty elements are skipped, every
  later element (empty or not) is appended after a slash.\<close>

fun join_buf :: "string list \<Rightarrow> string \<Rightarrow> string" where
  "join_buf [] buf = buf"
| "join_buf (e # es) buf =
     (if length buf > 0 \<or> e \<noteq> []
      then join_buf es ((if length buf > 0 then buf @ ''/'' else buf) @ e)
      else join_buf es buf)"

definition path_Join :: "string list \<Rightarrow> string" where
  "path_Join elem =
     (if length (concat elem) = 0 then [] else path_Clean (join_buf elem []))"

text \<open>\<open>path.Split\<close> and \<open>path.Dir\<close>: split after the last slash.\<close>

definition path_Split :: "string \<Rightarrow> string \<times> string" where
  "path_Split p =
     (let file = rev (takeWhile (\<lambda>x. x \<noteq> CHR ''/'') (rev p))
      in (take (length p - length file) p, file))"

definition path_Dir :: "string \<Rightarrow> string" where
  "path_Dir p = path_Clean (fst (path_Split p))"

text \<open>\<open>filepath.ToSlash\<close>: the identity where the separator of the operating system is
  the slash, otherwise every separator becomes a slash. The separator is a parameter.\<close>

definition filepath_ToSlash :: "char \<Rightarrow> string \<Rightarrow> string" where
  "filepath_ToSlash Separator p =
     (if Separator = CHR ''/'' then p
      else map (\<lambda>c. if c = Separator then CHR ''/'' else c) p)"

text \<open>\<open>slices.DeleteFunc(s, del)\<close> keeps, in order, the elements on which \<open>del\<close> is false.\<close>

definition slices_DeleteFunc :: "'a list \<Rightarrow> ('a \<Rightarrow> bool) \<Rightarrow> 'a list" where
  "slices_DeleteFunc s del = filter (\<lambda>x. \<not> del x) s"

subsection \<open>\<open>cleanRelativeFilePath\<close> (package \<open>hub\<close>)\<close>

definition cleanRelativeFilePath :: "char \<Rightarrow> string \<Rightarrow> string" where
  "cleanRelativeFilePath Separator repoFileName =
     (let parts = strings_Split (CHR ''/'') repoFileName;
          p = path_Clean (path_Join parts);
          parts = strings_Split (CHR ''/'') (filepath_ToSlash Separator p);
          parts = slices_DeleteFunc parts (\<lambda>s. s = [] \<or> s = ''..'')
      in if length parts = 0 then ''.'' else path_Join parts)"

section \<open>The resizable semaphore (package \<open>downloader\<close>)\<close>

text \<open>
  The struct has the fields \<open>capacity\<close> and \<open>current\<close> (Go \<open>int\<close>) and a condition
  variable. Every method runs under the mutex of the condition variable, so a method
  body is one atomic step of the model; \<open>cond.Wait\<close> is the only place where a caller
  gives the mutex up. The condition variable is modelled by two queues of goroutine ids:
  \<open>waiters\<close> are blocked in \<open>cond.Wait\<close>, \<open>woken\<close> have been signalled and will
  run the next iteration of the loop of \<open>Acquire\<close> when they get the mutex back.
  \<open>admitted\<close> lists the goroutines whose \<open>Acquire\<close> has returned, in order.
  The counters are unbounded integers: \<open>current\<close> stays between 0 and the largest
  capacity in use as long as every \<open>Release\<close> matches an \<open>Acquire\<close>, far from the
  range of a 64-bit \<open>int\<close>.
\<close>

record Semaphore =
  capacity :: int
  current :: int
  waiters :: "nat list"
  woken :: "nat list"
  admitted :: "nat list"

definition NewSemaphore :: "int \<Rightarrow> Semaphore" where
  "NewSemaphore c = \<lparr>capacity = c, current = 0, waiters = [], woken = [], admitted = []\<rparr>"

text \<open>The test of the loop of \<open>Acquire\<close>: \<open>s.capacity <= 0 || s.current < s.capacity\<close>.\<close>

definition admits :: "Semaphore \<Rightarrow> bool" where
  "admits s = (capacity s \<le> 0 \<or> current s < capacity s)"

text \<open>One iteration of the loop of \<open>Acquire\<close>, run by goroutine \<open>g\<close>: either
  \<open>s.current++; return\<close>, or \<open>s.cond.Wait()\<close>.\<close>

definition Acquire_iter :: "nat \<Rightarrow> Semaphore \<Rightarrow> Semaphore" where
  "Acquire_iter g s =
     (if admits s then s\<lparr>current := current s + 1, admitted := admitted s @ [g]\<rparr>
      else s\<lparr>waiters := waiters s @ [g]\<rparr>)"

text \<open>\<open>cond.Signal\<close> wakes the goroutine that has waited longest, if there is one;
  \<open>cond.Broadcast\<close> wakes all of them.\<close>

definition Signal :: "Semaphore \<Rightarrow> Semaphore" where
  "Signal s = (case waiters s of [] \<Rightarrow> s
               | g # gs \<Rightarrow> s\<lparr>waiters := gs, woken := woken s @ [g]\<rparr>)"

definition Broadcast :: "Semaphore \<Rightarrow> Semaphore" where
  "Broadcast s = s\<lparr>waiters := [], woken := woken s @ waiters s\<rparr>"

definition Release :: "Semaphore \<Rightarrow> Semaphore" where
  "Release s =
     (let s = s\<lparr>current := current s - 1\<rparr>
      in if capacity s = 0 \<or> current s < capacity s - 1 then s else Signal s)"

definition Resize :: "int \<Rightarrow> Semaphore \<Rightarrow> Semaphore" where
  "Resize newCapacity s =
     (if newCapacity = capacity s then s
      else if (newCapacity > 0 \<and> newCapacity < capacity s) \<or> capacity s = 0
           then s\<lparr>capacity := newCapacity\<rparr>
      else Broadcast (s\<lparr>capacity := newCapacity\<rparr>))"

text \<open>The events of a run: a goroutine calls \<open>Acquire\<close>; a woken goroutine returns from
  \<open>cond.Wait\<close> and runs the loop again (nothing happens if it was not woken); a holder
  calls \<open>Release\<close>; somebody calls \<open>Resize\<close>.\<close>

datatype sem_event = EvAcquire nat | EvResume nat | EvRelease | EvResize int

fun sem_step :: "Semaphore \<Rightarrow> sem_event \<Rightarrow> Semaphore" where
  "sem_step s (EvAcquire g) = Acquire_iter g s"
| "sem_step s (EvResume g) =
     (if g \<in> set (woken s) then Acquire_iter g (s\<lparr>woken := remove1 g (woken s)\<rparr>) else s)"
| "sem_step s EvRelease = Release s"
| "sem_step s (EvResize n) = Resize n s"

definition sem_run :: "Semaphore \<Rightarrow> sem_event list \<Rightarrow> Semaphore" where
  "sem_run s es = foldl sem_step s es"

fun is_wait_event :: "sem_event \<Rightarrow> bool" where
  "is_wait_event (EvAcquire g) = True"
| "is_wait_event (EvResume g) = True"
| "is_wait_event EvRelease = False"
| "is_wait_event (EvResize n) = False"

section \<open>The operating system and the network, as far as the downloader uses them\<close>

datatype errno = ENOENT | EAGAIN | EACCES | ENOTDIR | EISDIR | EEXIST | EBADF | EIO

text \<open>Go \<open>error\<close> values: an error of a system call, an error wrapped with a message
  (\<open>errors.Wrapf\<close>, \<open>errors.WithMessagef\<close>), a new error (\<open>errors.Errorf\<close>),
  \<open>context.Canceled\<close>, and errors of the HTTP client and of the JSON decoder.\<close>

datatype error =
    OSError errno
  | Wrapf string error
  | Errorf string
  | Canceled
  | HTTPError string
  | JSONError string

text \<open>A call either returns a value or panics.\<close>

datatype 'a outcome = Returns 'a | Panics error

datatype node = File string | Dir | Symlink string

datatype syscall =
    SysMkdirAll string
  | SysRemove string
  | SysCreate string
  | SysOpenFile string
  | SysClose string
  | SysRename string string
  | SysSymlink string string
  | SysFlockEx string
  | SysFlockUn string

text \<open>
  The state of the world that the program changes: the file table (a \<open>Symlink\<close> carries the
  path it resolves to), the descriptors this process holds open, the descriptors that hold
  an exclusive \<open>flock\<close>, and logs of the header probes sent, of the body transfers started
  (URL and destination) and of the system calls that write.
\<close>

record world =
  files :: "string \<rightharpoonup> node"
  handles :: "nat \<rightharpoonup> string"
  next_fd :: nat
  flocks :: "nat set"
  probes :: "string list"
  transfers :: "(string \<times> string) list"
  syscalls :: "syscall list"

record FileInfo =
  Name :: string

record SafeTensorsInfo =
  Total :: int
  Parameters :: "string \<rightharpoonup> int"

record RepoInfo =
  info_ID :: string
  ModelID :: string
  Author :: string
  CommitHash :: string
  Tags :: "string list"
  Siblings :: "FileInfo list"
  SafeTensors :: SafeTensorsInfo

text \<open>
  What the program does not control. \<open>stat_denied\<close>: the paths on which \<open>stat\<close> fails
  with \<open>EACCES\<close> (a directory on the way cannot be searched). \<open>fault\<close>: the writing
  system calls that fail, and how. \<open>read_fault\<close>: the same for \<open>os.ReadFile\<close>.
  \<open>flock_script p n\<close>: the result of the \<open>n\<close>-th attempt to lock \<open>p\<close> without
  blocking (\<open>None\<close> is success, \<open>Some EAGAIN\<close> means another holder).
  \<open>interfere\<close>: what other processes did to the files while this one waited for a lock.
  \<open>head_response\<close>, \<open>body_response\<close>: the answers of the server to a header
  probe (headers and content length) and to a body request (the bytes that arrive,
  and the error if the transfer fails). \<open>json_decode\<close>: the JSON decoder for
  \<open>RepoInfo\<close>. \<open>filepath_Rel\<close>: \<open>filepath.Rel\<close>. \<open>strconv_Atoi\<close>:
  \<open>strconv.Atoi\<close> (\<open>None\<close> is an error). \<open>sched\<close>: the order in which the
  download goroutines of a batch get to run (indices of files; goroutines not listed run last).
\<close>

record env =
  Separator :: char
  stat_denied :: "string \<Rightarrow> bool"
  fault :: "syscall \<Rightarrow> errno option"
  read_fault :: "string \<Rightarrow> errno option"
  flock_script :: "string \<Rightarrow> nat \<Rightarrow> errno option"
  interfere :: "(string \<rightharpoonup> node) \<Rightarrow> (string \<rightharpoonup> node)"
  head_response :: "string \<Rightarrow> error + ((string \<rightharpoonup> string) \<times> int)"
  body_response :: "string \<Rightarrow> string \<times> error option"
  json_decode :: "string \<Rightarrow> error + RepoInfo"
  filepath_Rel :: "string \<Rightarrow> string \<Rightarrow> error + string"
  strconv_Atoi :: "string \<Rightarrow> int option"
  sched :: "nat list"

definition log_syscall :: "syscall \<Rightarrow> world \<Rightarrow> world" where
  "log_syscall c w = w\<lparr>syscalls := syscalls w @ [c]\<rparr>"

text \<open>\<open>os.Stat\<close> follows a symbolic link; a path that is absent, or a link whose target
  is absent, gives \<open>ENOENT\<close>.\<close>

definition os_Stat :: "env \<Rightarrow> world \<Rightarrow> string \<Rightarrow> errno option" where
  "os_Stat env w p =
     (if stat_denied env p then Some EACCES
      else case files w p of
             None \<Rightarrow> Some ENOENT
           | Some (Symlink t) \<Rightarrow> (if files w t = None then Some ENOENT else None)
           | Some _ \<Rightarrow> None)"

text \<open>\<open>errors.Is(err, os.ErrNotExist)\<close> holds for \<open>ENOENT\<close> only.\<close>

definition is_ErrNotExist :: "errno \<Rightarrow> bool" where
  "is_ErrNotExist e = (e = ENOENT)"

text \<open>\<open>fileExists\<close> (package \<open>hub\<close>): \<open>true\<close> if \<open>os.Stat\<close> succeeds, \<open>false\<close> if the
  error is \<open>os.ErrNotExist\<close>, otherwise \<open>panic(err)\<close>.\<close>

definition fileExists :: "env \<Rightarrow> world \<Rightarrow> string \<Rightarrow> bool outcome" where
  "fileExists env w path =
     (case os_Stat env w path of
        None \<Rightarrow> Returns True
      | Some err \<Rightarrow> if is_ErrNotExist err then Returns False else Panics (OSError err))"

text \<open>\<open>files.Exists\<close> (internal/files/files.go): \<open>err == nil\<close>.\<close>

definition files_Exists :: "env \<Rightarrow> world \<Rightarrow> string \<Rightarrow> bool" where
  "files_Exists env w filePath = (os_Stat env w filePath = None)"

definition os_Remove :: "env \<Rightarrow> string \<Rightarrow> world \<Rightarrow> errno option \<times> world" where
  "os_Remove env p w =
     (let w1 = log_syscall (SysRemove p) w
      in case fault env (SysRemove p) of
           Some e \<Rightarrow> (Some e, w1)
         | None \<Rightarrow> (if files w p = None then (Some ENOENT, w1)
                    else (None, w1\<lparr>files := (files w)(p := None)\<rparr>)))"

text \<open>The directories that \<open>os.MkdirAll\<close> needs: the cleaned path and every prefix of it
  that ends before a slash.\<close>

definition dir_chain :: "string \<Rightarrow> string list" where
  "dir_chain p =
     (let q = path_Clean p
      in [take i q. i \<leftarrow> [1..<length q], q ! i = CHR ''/''] @ [q])"

definition os_MkdirAll :: "env \<Rightarrow> string \<Rightarrow> world \<Rightarrow> errno option \<times> world" where
  "os_MkdirAll env p w =
     (let w1 = log_syscall (SysMkdirAll p) w
      in case fault env (SysMkdirAll p) of
           Some e \<Rightarrow> (Some e, w1)
         | None \<Rightarrow>
             (if \<exists>d \<in> set (dir_chain p). files w d \<noteq> None \<and> files w d \<noteq> Some Dir
              then (Some ENOTDIR, w1)
              else (None, w1\<lparr>files := (\<lambda>x. if x \<in> set (dir_chain p) then Some Dir else files w x)\<rparr>)))"

text \<open>\<open>os.Create\<close>: create or truncate, and open.\<close>

definition os_Create :: "env \<Rightarrow> string \<Rightarrow> world \<Rightarrow> (errno + nat) \<times> world" where
  "os_Create env p w =
     (let w1 = log_syscall (SysCreate p) w
      in case fault env (SysCreate p) of
           Some e \<Rightarrow> (Inl e, w1)
         | None \<Rightarrow>
             (if files w p = Some Dir then (Inl EISDIR, w1)
              else (Inr (next_fd w),
                    w1\<lparr>files := (files w)(p \<mapsto> File []),
                       handles := (handles w)(next_fd w \<mapsto> p),
                       next_fd := Suc (next_fd w)\<rparr>)))"

text \<open>\<open>os.OpenFile(p, O_APPEND|O_WRONLY|O_CREATE, perm)\<close>: create if absent, and open.\<close>

definition os_OpenFile :: "env \<Rightarrow> string \<Rightarrow> world \<Rightarrow> (errno + nat) \<times> world" where
  "os_OpenFile env p w =
     (let w1 = log_syscall (SysOpenFile p) w
      in case fault env (SysOpenFile p) of
           Some e \<Rightarrow> (Inl e, w1)
         | None \<Rightarrow>
             (if files w p = Some Dir then (Inl EISDIR, w1)
              else (Inr (next_fd w),
                    w1\<lparr>files := (if files w p = None then (files w)(p \<mapsto> File []) else files w),
                       handles := (handles w)(next_fd w \<mapsto> p),
                       next_fd := Suc (next_fd w)\<rparr>)))"

text \<open>\<open>(*os.File).Close\<close>: the descriptor is gone afterwards, also when \<open>close\<close> reports
  an error, and with it the \<open>flock\<close> that the descriptor held. A descriptor that is not
  open holds no lock.\<close>

definition file_Close :: "env \<Rightarrow> nat \<Rightarrow> world \<Rightarrow> errno option \<times> world" where
  "file_Close env f w =
     (case handles w f of
        None \<Rightarrow> (Some EBADF, w\<lparr>flocks := flocks w - {f}\<rparr>)
      | Some p \<Rightarrow>
          (fault env (SysClose p),
           (log_syscall (SysClose p) w)\<lparr>handles := (handles w)(f := None),
                                         flocks := flocks w - {f}\<rparr>))"

definition os_Rename :: "env \<Rightarrow> string \<Rightarrow> string \<Rightarrow> world \<Rightarrow> errno option \<times> world" where
  "os_Rename env src dst w =
     (let w1 = log_syscall (SysRename src dst) w
      in case fault env (SysRename src dst) of
           Some e \<Rightarrow> (Some e, w1)
         | None \<Rightarrow>
             (case files w src of
                None \<Rightarrow> (Some ENOENT, w1)
              | Some n \<Rightarrow> (None, w1\<lparr>files := (files w)(dst \<mapsto> n, src := None)\<rparr>)))"

definition os_Symlink :: "env \<Rightarrow> string \<Rightarrow> string \<Rightarrow> string \<Rightarrow> world \<Rightarrow> errno option \<times> world" where
  "os_Symlink env relLink target dst w =
     (let w1 = log_syscall (SysSymlink relLink dst) w
      in case fault env (SysSymlink relLink dst) of
           Some e \<Rightarrow> (Some e, w1)
         | None \<Rightarrow>
             (if files w dst \<noteq> None then (Some EEXIST, w1)
              else (None, w1\<lparr>files := (files w)(dst \<mapsto> Symlink target)\<rparr>)))"

definition os_ReadFile :: "env \<Rightarrow> world \<Rightarrow> string \<Rightarrow> errno + string" where
  "os_ReadFile env w p =
     (case read_fault env p of
        Some e \<Rightarrow> Inl e
      | None \<Rightarrow>
          (case files w p of
             None \<Rightarrow> Inl ENOENT
           | Some Dir \<Rightarrow> Inl EISDIR
           | Some (File c) \<Rightarrow> Inr c
           | Some (Symlink t) \<Rightarrow>
               (case files w t of
                  Some (File c) \<Rightarrow> Inr c
                | Some Dir \<Rightarrow> Inl EISDIR
                | _ \<Rightarrow> Inl ENOENT)))"

text \<open>\<open>syscall.Flock(fd, LOCK_UN)\<close>.\<close>

definition syscall_Flock_UN :: "env \<Rightarrow> nat \<Rightarrow> string \<Rightarrow> world \<Rightarrow> errno option \<times> world" where
  "syscall_Flock_UN env f p w =
     (let w1 = log_syscall (SysFlockUn p) w
      in case fault env (SysFlockUn p) of
           Some e \<Rightarrow> (Some e, w1)
         | None \<Rightarrow> (None, w1\<lparr>flocks := flocks w - {f}\<rparr>))"

section \<open>The cross-process file lock (hub/download.go)\<close>

text \<open>
  The loop of \<open>execOnFileLock\<close> that polls for the lock: attempt \<open>n\<close> either takes the
  lock, or fails with \<open>EAGAIN\<close> (the loop sleeps and tries again), or fails with another
  error (the loop ends). The result is the number of the last attempt and its result.
  When every attempt gives \<open>EAGAIN\<close> the loop never ends: the value is \<open>None\<close>.
\<close>

partial_function (option) flock_loop :: "(nat \<Rightarrow> errno option) \<Rightarrow> nat \<Rightarrow> (nat \<times> errno option) option" where
  "flock_loop script n =
     (case script n of
        None \<Rightarrow> Some (n, None)
      | Some e \<Rightarrow> if e = EAGAIN then flock_loop script (Suc n) else Some (n, Some e))"

declare flock_loop.simps [code]

text \<open>
  The second deferred function of \<open>execOnFileLock\<close>, with the value of the named result
  \<open>err\<close> at the time it runs:
  \<open>if err != nil { err = syscall.Flock(fd, LOCK_UN) }; if err != nil { err = Wrapf(err, ...) }\<close>.
\<close>

definition deferred_unlock :: "env \<Rightarrow> nat \<Rightarrow> string \<Rightarrow> error option \<Rightarrow> world \<Rightarrow> error option \<times> world" where
  "deferred_unlock env f lockPath err w =
     (let (err1, w1) =
            (if err \<noteq> None
             then (case syscall_Flock_UN env f lockPath w of
                     (None, w') \<Rightarrow> (None, w')
                   | (Some e, w') \<Rightarrow> (Some (OSError e), w'))
             else (err, w))
      in case err1 of
           None \<Rightarrow> (None, w1)
         | Some e \<Rightarrow> (Some (Wrapf ''unlocking file'' e), w1))"

text \<open>
  \<open>execOnFileLock lockPath fn\<close>. The guarded function is a parameter: it takes the world
  and returns or panics. The result is the error of \<open>execOnFileLock\<close> and, when \<open>fn\<close>
  ran, what it returned. The first deferred function closes the lock file; deferred
  functions run when \<open>fn\<close> panics too, in reverse order, and then the panic goes on to
  the caller. When the lock is taken, \<open>interfere\<close> has happened to the files.
\<close>

definition execOnFileLock ::
  "env \<Rightarrow> string \<Rightarrow> (world \<Rightarrow> 'a outcome \<times> world) \<Rightarrow> world
     \<Rightarrow> ((error option \<times> 'a option) outcome \<times> world) option" where
  "execOnFileLock env lockPath fn w =
     (case os_OpenFile env lockPath w of
        (Inl e, w1) \<Rightarrow> Some (Returns (Some (Wrapf ''while locking'' (OSError e)), None), w1)
      | (Inr f, w1) \<Rightarrow>
          (case flock_loop (flock_script env lockPath) 0 of
             None \<Rightarrow> None
           | Some (n, Some e) \<Rightarrow>
               (let w2 = w1\<lparr>syscalls := syscalls w1 @ replicate (Suc n) (SysFlockEx lockPath)\<rparr>;
                    (_, w3) = file_Close env f w2
                in Some (Returns (Some (Wrapf ''while locking'' (OSError e)), None), w3))
           | Some (n, None) \<Rightarrow>
               (let w2 = w1\<lparr>syscalls := syscalls w1 @ replicate (Suc n) (SysFlockEx lockPath),
                            flocks := insert f (flocks w1),
                            files := interfere env (files w1)\<rparr>;
                    (out, w3) = fn w2;
                    (err, w4) = deferred_unlock env f lockPath None w3;
                    (_, w5) = file_Close env f w4
                in case out of
                     Panics e \<Rightarrow> Some (Panics e, w5)
                   | Returns a \<Rightarrow> Some (Returns (err, Some a), w5))))"

section \<open>The download manager (package downloader), the repository (hub/repo.go)\<close>

text \<open>The manager's transfers are outside the repository: a header probe and a body
  transfer are logged, and their results are those of the environment. A body transfer
  leaves the bytes that arrived in the destination file, complete or not.\<close>

record Manager =
  maxParallel :: int
  mgr_authToken :: string

definition Manager_FetchHeader ::
  "env \<Rightarrow> string \<Rightarrow> world \<Rightarrow> (error + ((string \<rightharpoonup> string) \<times> int)) \<times> world" where
  "Manager_FetchHeader env url w = (head_response env url, w\<lparr>probes := probes w @ [url]\<rparr>)"

definition Manager_Download :: "env \<Rightarrow> string \<Rightarrow> string \<Rightarrow> world \<Rightarrow> error option \<times> world" where
  "Manager_Download env url filePath w =
     (snd (body_response env url),
      w\<lparr>files := (files w)(filePath \<mapsto> File (fst (body_response env url))),
        transfers := transfers w @ [(url, filePath)]\<rparr>)"

record Repo =
  ID :: string
  hfEndpoint :: string
  repoType :: string
  revision :: string
  authToken :: string
  Verbosity :: int
  MaxParallelDownload :: int
  cacheDir :: string
  info :: "RepoInfo option"
  downloadManager :: "Manager option"
  useProgressBar :: bool

definition RepoIdSeparator :: string where
  "RepoIdSeparator = ''--''"

definition RepoTypeModel :: string where
  "RepoTypeModel = ''models''"

definition getDownloadManager :: "Repo \<Rightarrow> Repo" where
  "getDownloadManager r =
     (if downloadManager r = None
      then r\<lparr>downloadManager :=
               Some \<lparr>maxParallel = MaxParallelDownload r, mgr_authToken = authToken r\<rparr>\<rparr>
      else r)"

definition flatFolderName :: "Repo \<Rightarrow> string" where
  "flatFolderName r =
     strings_Join (repoType r # strings_Split (CHR ''/'') (ID r)) RepoIdSeparator"

definition repoCacheDir :: "env \<Rightarrow> Repo \<Rightarrow> world \<Rightarrow> (error + string) \<times> world" where
  "repoCacheDir env r w =
     (let dir = path_Join [cacheDir r, flatFolderName r]
      in case os_MkdirAll env dir w of
           (Some e, w1) \<Rightarrow> (Inl (Wrapf ''while creating cache directory'' (OSError e)), w1)
         | (None, w1) \<Rightarrow> (Inr dir, w1))"

definition infoURL :: "Repo \<Rightarrow> string" where
  "infoURL r = hfEndpoint r @ ''/api/'' @ repoType r @ ''/'' @ ID r @ ''/revision/'' @ revision r"

section \<open>The single-file fetcher (hub/download.go)\<close>

text \<open>The deferred function of the guarded function of \<open>lockedDownload\<close>:
  \<open>if !tmpFileClosed { tmpFile.Close(); os.Remove(tmpPath) }\<close>; both errors are only logged.\<close>

definition tmp_cleanup :: "env \<Rightarrow> bool \<Rightarrow> nat \<Rightarrow> string \<Rightarrow> world \<Rightarrow> world" where
  "tmp_cleanup env tmpFileClosed tmpFile tmpPath w =
     (if \<not> tmpFileClosed
      then snd (os_Remove env tmpPath (snd (file_Close env tmpFile w)))
      else w)"

text \<open>The function that \<open>lockedDownload\<close> runs under the lock. It returns the value it
  leaves in \<open>mainErr\<close>, and the repository (whose download manager it may create).\<close>

definition lockedDownload_fn ::
  "env \<Rightarrow> string \<Rightarrow> string \<Rightarrow> string \<Rightarrow> Repo \<Rightarrow> world \<Rightarrow> (error option \<times> Repo) outcome \<times> world" where
  "lockedDownload_fn env url filePath lockPath r w =
     (case fileExists env w filePath of
        Panics e \<Rightarrow> (Panics e, w)
      | Returns True \<Rightarrow> (Returns (None, r), w)
      | Returns False \<Rightarrow>
          (let tmpPath = filePath @ ''.downloading''
           in case os_Create env tmpPath w of
                (Inl e, w1) \<Rightarrow>
                  (Returns (Some (Wrapf ''creating temporary file for download'' (OSError e)), r), w1)
              | (Inr tmpFile, w1) \<Rightarrow>
                  (let r1 = getDownloadManager r
                   in case Manager_Download env url tmpPath w1 of
                        (Some e, w2) \<Rightarrow>
                          (Returns (Some (Wrapf ''while downloading'' e), r1),
                           tmp_cleanup env False tmpFile tmpPath w2)
                      | (None, w2) \<Rightarrow>
                          (case file_Close env tmpFile w2 of
                             (Some e, w3) \<Rightarrow>
                               (Returns (Some (Wrapf ''failed to close temporary download file''
                                                (OSError e)), r1),
                                tmp_cleanup env True tmpFile tmpPath w3)
                           | (None, w3) \<Rightarrow>
                               (case os_Rename env tmpPath filePath w3 of
                                  (Some e, w4) \<Rightarrow>
                                    (Returns (Some (Wrapf ''failed to move downloaded file''
                                                     (OSError e)), r1),
                                     tmp_cleanup env True tmpFile tmpPath w4)
                                | (None, w4) \<Rightarrow>
                                    (Returns (None, r1),
                                     tmp_cleanup env True tmpFile tmpPath
                                       (snd (os_Remove env lockPath w4))))))))"

text \<open>\<open>lockedDownload ctx url filePath forceDownload\<close>; \<open>ctxDone\<close> is whether
  \<open>ctx.Err()\<close> is not nil. The progress callback only feeds counters that are printed;
  it is left out.\<close>

definition lockedDownload ::
  "env \<Rightarrow> bool \<Rightarrow> string \<Rightarrow> string \<Rightarrow> bool \<Rightarrow> Repo \<Rightarrow> world
     \<Rightarrow> (error option outcome \<times> Repo \<times> world) option" where
  "lockedDownload env ctxDone url filePath forceDownload r w =
     (case fileExists env w filePath of
        Panics e \<Rightarrow> Some (Panics e, r, w)
      | Returns exists \<Rightarrow>
          if exists \<and> \<not> forceDownload then Some (Returns None, r, w)
          else
            (case (if exists then os_Remove env filePath w else (None, w)) of
               (Some e, w1) \<Rightarrow> Some (Returns (Some (Wrapf ''failed to remove'' (OSError e))), r, w1)
             | (None, w1) \<Rightarrow>
                 if ctxDone then Some (Returns (Some Canceled), r, w1)
                 else
                   (case os_MkdirAll env (path_Dir filePath) w1 of
                      (Some e, w2) \<Rightarrow>
                        Some (Returns (Some (Wrapf ''failed to create directory for file''
                                               (OSError e))), r, w2)
                    | (None, w2) \<Rightarrow>
                        (let lockPath = filePath @ ''.lock''
                         in case execOnFileLock env lockPath
                                   (lockedDownload_fn env url filePath lockPath r) w2 of
                              None \<Rightarrow> None
                            | Some (Panics e, w3) \<Rightarrow> Some (Panics e, r, w3)
                            | Some (Returns (errLock, None), w3) \<Rightarrow>
                                (case errLock of
                                   Some e \<Rightarrow> Some (Returns (Some (Wrapf ''while locking'' e)), r, w3)
                                 | None \<Rightarrow> Some (Returns None, r, w3))
                            | Some (Returns (errLock, Some (mainErr, r1)), w3) \<Rightarrow>
                                (case mainErr of
                                   Some e \<Rightarrow> Some (Returns (Some e), r1, w3)
                                 | None \<Rightarrow>
                                     (case errLock of
                                        Some e \<Rightarrow>
                                          Some (Returns (Some (Wrapf ''while locking'' e)), r1, w3)
                                      | None \<Rightarrow> Some (Returns None, r1, w3)))))))"

section \<open>Repository info (hub/info.go)\<close>

text \<open>\<open>DownloadInfo forceDownload\<close>. The result is the error returned (or the panic), the
  repository and the world.\<close>

definition DownloadInfo ::
  "env \<Rightarrow> bool \<Rightarrow> Repo \<Rightarrow> world \<Rightarrow> (error option outcome \<times> Repo \<times> world) option" where
  "DownloadInfo env forceDownload r w =
     (if info r \<noteq> None \<and> \<not> forceDownload then Some (Returns None, r, w)
      else
        (case repoCacheDir env r w of
           (Inl err, w1) \<Rightarrow> Some (Returns (Some err), r, w1)
         | (Inr dir, w1) \<Rightarrow>
             (let infoDir = path_Join [dir, ''info'']
              in case os_MkdirAll env infoDir w1 of
                   (Some e, w2) \<Rightarrow>
                     Some (Returns (Some (Wrapf ''while creating info directory'' (OSError e))), r, w2)
                 | (None, w2) \<Rightarrow>
                     (let infoFilePath = path_Join [infoDir, revision r]
                      in case (if \<not> files_Exists env w2 infoFilePath \<or> forceDownload
                               then lockedDownload env False (infoURL r) infoFilePath forceDownload r w2
                               else Some (Returns None, r, w2)) of
                           None \<Rightarrow> None
                         | Some (Panics e, r3, w3) \<Rightarrow> Some (Panics e, r3, w3)
                         | Some (Returns (Some err), r3, w3) \<Rightarrow>
                             Some (Returns (Some (Wrapf ''failed to download repository info'' err)),
                                   r3, w3)
                         | Some (Returns None, r3, w3) \<Rightarrow>
                             (case os_ReadFile env w3 infoFilePath of
                                Inl e \<Rightarrow>
                                  Some (Returns (Some (Wrapf ''failed to read info for model from disk''
                                                         (OSError e))), r3, w3)
                              | Inr infoJson \<Rightarrow>
                                  (case json_decode env infoJson of
                                     Inl err \<Rightarrow>
                                       Some (Returns (Some (Wrapf ''failed to parse info for model'' err)),
                                             r3, w3)
                                   | Inr newInfo \<Rightarrow>
                                       Some (Returns None, r3\<lparr>info := Some newInfo\<rparr>, w3)))))))"

section \<open>Repository paths and URLs (hub/repo.go)\<close>

text \<open>\<open>readCommitHashForRevision\<close>: \<open>r.info.CommitHash\<close> after \<open>DownloadInfo(false)\<close>; reading
  through a nil \<open>r.info\<close> would panic.\<close>

definition readCommitHashForRevision ::
  "env \<Rightarrow> Repo \<Rightarrow> world \<Rightarrow> ((error + string) outcome \<times> Repo \<times> world) option" where
  "readCommitHashForRevision env r w =
     (case DownloadInfo env False r w of
        None \<Rightarrow> None
      | Some (Panics e, r1, w1) \<Rightarrow> Some (Panics e, r1, w1)
      | Some (Returns (Some err), r1, w1) \<Rightarrow> Some (Returns (Inl err), r1, w1)
      | Some (Returns None, r1, w1) \<Rightarrow>
          (case info r1 of
             None \<Rightarrow> Some (Panics (Errorf ''nil pointer dereference''), r1, w1)
           | Some i \<Rightarrow> Some (Returns (Inr (CommitHash i)), r1, w1)))"

definition FileURL ::
  "env \<Rightarrow> Repo \<Rightarrow> string \<Rightarrow> world \<Rightarrow> ((error + string) outcome \<times> Repo \<times> world) option" where
  "FileURL env r fileName w =
     (case readCommitHashForRevision env r w of
        None \<Rightarrow> None
      | Some (Panics e, r1, w1) \<Rightarrow> Some (Panics e, r1, w1)
      | Some (Returns (Inl err), r1, w1) \<Rightarrow> Some (Returns (Inl err), r1, w1)
      | Some (Returns (Inr commitHash), r1, w1) \<Rightarrow>
          (if repoType r1 = RepoTypeModel
           then Some (Returns (Inr (hfEndpoint r1 @ ''/'' @ ID r1 @ ''/resolve/'' @ commitHash
                                     @ ''/'' @ fileName)), r1, w1)
           else Some (Returns (Inr (hfEndpoint r1 @ ''/'' @ repoType r1 @ ''/'' @ ID r1
                                     @ ''/resolve/'' @ commitHash @ ''/'' @ fileName)), r1, w1)))"

definition repoSnapshotsDir ::
  "env \<Rightarrow> Repo \<Rightarrow> world \<Rightarrow> ((error + string) outcome \<times> Repo \<times> world) option" where
  "repoSnapshotsDir env r w =
     (case repoCacheDir env r w of
        (Inl err, w1) \<Rightarrow> Some (Returns (Inl err), r, w1)
      | (Inr repoDir, w1) \<Rightarrow>
          (case readCommitHashForRevision env r w1 of
             None \<Rightarrow> None
           | Some (Panics e, r2, w2) \<Rightarrow> Some (Panics e, r2, w2)
           | Some (Returns (Inl err), r2, w2) \<Rightarrow> Some (Returns (Inl err), r2, w2)
           | Some (Returns (Inr commitHash), r2, w2) \<Rightarrow>
               (let snapshotsDir = path_Join [repoDir, ''snapshots'', commitHash]
                in case os_MkdirAll env snapshotsDir w2 of
                     (Some e, w3) \<Rightarrow>
                       Some (Returns (Inl (Wrapf ''while creating snapshots directory'' (OSError e))),
                             r2, w3)
                   | (None, w3) \<Rightarrow> Some (Returns (Inr snapshotsDir), r2, w3))))"

section \<open>File metadata and links (package \<open>hub\<close>)\<close>

record fileMetadata =
  md_CommitHash :: string
  ETag :: string
  Location :: string
  Size :: int

definition HeaderXRepoCommit :: string where "HeaderXRepoCommit = ''X-Repo-Commit''"
definition HeaderXLinkedETag :: string where "HeaderXLinkedETag = ''X-Linked-Etag''"
definition HeaderXLinkedSize :: string where "HeaderXLinkedSize = ''X-Linked-Size''"

text \<open>\<open>http.Header.Get\<close>: the value of the header, or the empty string.\<close>

definition header_Get :: "(string \<rightharpoonup> string) \<Rightarrow> string \<Rightarrow> string" where
  "header_Get header key = (case header key of None \<Rightarrow> [] | Some v \<Rightarrow> v)"

text \<open>\<open>removeQuotes\<close>: \<open>strings.TrimRight(strings.TrimLeft(str, "\""), "\"")\<close>.\<close>

definition removeQuotes :: "string \<Rightarrow> string" where
  "removeQuotes str =
     rev (dropWhile (\<lambda>c. c = CHR 0x22) (rev (dropWhile (\<lambda>c. c = CHR 0x22) str)))"

definition extractFileMetadata ::
  "env \<Rightarrow> (string \<rightharpoonup> string) \<Rightarrow> string \<Rightarrow> int \<Rightarrow> fileMetadata" where
  "extractFileMetadata env header url contentLength =
     (let commitHash = header_Get header HeaderXRepoCommit;
          etag = header_Get header HeaderXLinkedETag;
          etag = (if etag = [] then header_Get header ''ETag'' else etag);
          etag = removeQuotes etag;
          location = header_Get header ''Location'';
          location = (if location = [] then url else location);
          sizeStr = header_Get header HeaderXLinkedSize;
          sz = (if sizeStr \<noteq> []
                then (case strconv_Atoi env sizeStr of None \<Rightarrow> 0 | Some n \<Rightarrow> n)
                else 0);
          sz = (if sz = 0 then contentLength else sz)
      in \<lparr>md_CommitHash = commitHash, ETag = etag, Location = location, Size = sz\<rparr>)"

text \<open>\<open>createSymLink dst src\<close>: the text of the link is the path of \<open>src\<close> relative to the
  directory of \<open>dst\<close>, or \<open>src\<close> itself; what was at \<open>dst\<close> is removed first.\<close>

definition createSymLink :: "env \<Rightarrow> string \<Rightarrow> string \<Rightarrow> world \<Rightarrow> error option \<times> world" where
  "createSymLink env dst src w =
     (let relLink = (case filepath_Rel env (path_Dir dst) src of Inl _ \<Rightarrow> src | Inr l \<Rightarrow> l)
      in case os_Remove env dst w of
           (Some e, w1) \<Rightarrow>
             if \<not> is_ErrNotExist e
             then (Some (Wrapf ''failed to remove dst before linking'' (OSError e)), w1)
             else (case os_Symlink env relLink src dst w1 of
                     (Some e', w2) \<Rightarrow> (Some (Wrapf ''while symlinking'' (OSError e')), w2)
                   | (None, w2) \<Rightarrow> (None, w2))
         | (None, w1) \<Rightarrow>
             (case os_Symlink env relLink src dst w1 of
                (Some e', w2) \<Rightarrow> (Some (Wrapf ''while symlinking'' (OSError e')), w2)
              | (None, w2) \<Rightarrow> (None, w2)))"

section \<open>The batch download (\<open>DownloadFiles\<close>, package \<open>hub\<close>)\<close>

text \<open>
  The variables that the goroutines of one call of \<open>DownloadFiles\<close> share:
  \<open>firstError\<close>, the cancellation of the context of the call, and the two counters of
  the progress line.
\<close>

record batch =
  firstError :: "error option"
  cancelled :: bool
  requireDownload :: nat
  numDownloadedFiles :: nat

text \<open>\<open>reportErrorFn\<close>: keep the first error, cancel the context.\<close>

definition reportErrorFn :: "error \<Rightarrow> batch \<Rightarrow> batch" where
  "reportErrorFn err b =
     b\<lparr>firstError := (if firstError b = None then Some err else firstError b),
       cancelled := True\<rparr>"

text \<open>What a download goroutine captures: the index and the name of the file, its URL and
  its snapshot path.\<close>

record worker =
  idxFile :: nat
  repoFileName :: string
  fileURL :: string
  snapshotPath :: string

text \<open>The end of the goroutine: link the snapshot path to the blob.\<close>

definition link_snapshot ::
  "env \<Rightarrow> worker \<Rightarrow> string \<Rightarrow> batch \<Rightarrow> Repo \<Rightarrow> world \<Rightarrow> batch \<times> Repo \<times> world" where
  "link_snapshot env wk blobPath b r w =
     (case createSymLink env (snapshotPath wk) blobPath w of
        (Some err, w1) \<Rightarrow> (reportErrorFn (Wrapf ''while downloading from repository'' err) b, r, w1)
      | (None, w1) \<Rightarrow> (b, r, w1))"

text \<open>
  The body of the goroutine that \<open>DownloadFiles\<close> starts for a file. A goroutine runs
  from start to end in one step of the model. A panic in a goroutine ends the program.
\<close>

definition download_worker ::
  "env \<Rightarrow> string \<Rightarrow> worker \<Rightarrow> batch \<Rightarrow> Repo \<Rightarrow> world
     \<Rightarrow> ((batch \<times> Repo \<times> world) outcome) option" where
  "download_worker env repoDir wk b r w =
     (case Manager_FetchHeader env (fileURL wk) w of
        (Inl err, w1) \<Rightarrow> Some (Returns (reportErrorFn err b, r, w1))
      | (Inr (header, contentLength), w1) \<Rightarrow>
          (let metadata = extractFileMetadata env header (fileURL wk) contentLength;
               etag = ETag metadata
           in if etag = [] then
                Some (Returns (reportErrorFn (Errorf ''resource does not have an ETag'') b, r, w1))
              else if Location metadata \<noteq> fileURL wk then
                Some (Returns (reportErrorFn (Errorf ''resource has a redirect'') b, r, w1))
              else
                (let blobPath = path_Join [repoDir, ''blobs'', etag]
                 in case fileExists env w1 blobPath of
                      Panics e \<Rightarrow> Some (Panics e)
                    | Returns True \<Rightarrow> Some (Returns (link_snapshot env wk blobPath b r w1))
                    | Returns False \<Rightarrow>
                        (let b1 = b\<lparr>requireDownload := Suc (requireDownload b)\<rparr>
                         in case lockedDownload env (cancelled b1) (fileURL wk) blobPath False r w1 of
                              None \<Rightarrow> None
                            | Some (Panics e, r2, w2) \<Rightarrow> Some (Panics e)
                            | Some (Returns (Some err), r2, w2) \<Rightarrow>
                                Some (Returns (reportErrorFn err b1, r2, w2))
                            | Some (Returns None, r2, w2) \<Rightarrow>
                                Some (Returns
                                  (link_snapshot env wk blobPath
                                     (b1\<lparr>numDownloadedFiles := Suc (numDownloadedFiles b1)\<rparr>)
                                     r2 w2))))))"

text \<open>The goroutines run one after the other, in the order given.\<close>

fun run_workers ::
  "env \<Rightarrow> string \<Rightarrow> worker list \<Rightarrow> batch \<Rightarrow> Repo \<Rightarrow> world
     \<Rightarrow> ((batch \<times> Repo \<times> world) outcome) option" where
  "run_workers env repoDir [] b r w = Some (Returns (b, r, w))"
| "run_workers env repoDir (wk # wks) b r w =
     (case download_worker env repoDir wk b r w of
        None \<Rightarrow> None
      | Some (Panics e) \<Rightarrow> Some (Panics e)
      | Some (Returns (b1, r1, w1)) \<Rightarrow> run_workers env repoDir wks b1 r1 w1)"

text \<open>The order in which the goroutines run: those that \<open>sched\<close> lists, in its order,
  then the others in the order of their start. It is a permutation of the goroutines
  started.\<close>

definition run_order :: "nat list \<Rightarrow> worker list \<Rightarrow> worker list" where
  "run_order sch wks =
     concat (map (\<lambda>i. filter (\<lambda>wk. idxFile wk = i) wks) (remdups sch))
     @ filter (\<lambda>wk. idxFile wk \<notin> set sch) wks"

text \<open>
  The loop of \<open>DownloadFiles\<close> over the requested names, from index \<open>idx\<close> on:
  \<open>downloadedPaths\<close> is the slice of results, \<open>started\<close> the goroutines started so far.
  An error returns at once; the goroutines started before are not waited for.
\<close>

fun DownloadFiles_loop ::
  "env \<Rightarrow> string \<Rightarrow> nat \<Rightarrow> string list \<Rightarrow> string list \<Rightarrow> worker list \<Rightarrow> Repo \<Rightarrow> world
     \<Rightarrow> ((error + string list \<times> worker list) outcome \<times> Repo \<times> world) option" where
  "DownloadFiles_loop env snapshotDir idx [] downloadedPaths started r w =
     Some (Returns (Inr (downloadedPaths, started)), r, w)"
| "DownloadFiles_loop env snapshotDir idx (name # names) downloadedPaths started r w =
     (case FileURL env r name w of
        None \<Rightarrow> None
      | Some (Panics e, r1, w1) \<Rightarrow> Some (Panics e, r1, w1)
      | Some (Returns (Inl err), r1, w1) \<Rightarrow> Some (Returns (Inl err), r1, w1)
      | Some (Returns (Inr url), r1, w1) \<Rightarrow>
          (let relativeFilePath = cleanRelativeFilePath (Separator env) name
           in if relativeFilePath = ''.'' then
                Some (Returns (Inl (Errorf ''invalid file name'')), r1, w1)
              else
                (let snapshot = path_Join [snapshotDir, relativeFilePath];
                     downloadedPaths = downloadedPaths[idx := snapshot]
                 in case fileExists env w1 snapshot of
                      Panics e \<Rightarrow> Some (Panics e, r1, w1)
                    | Returns True \<Rightarrow>
                        DownloadFiles_loop env snapshotDir (Suc idx) names downloadedPaths started r1 w1
                    | Returns False \<Rightarrow>
                        (case os_MkdirAll env (fst (path_Split snapshot)) w1 of
                           (Some e, w2) \<Rightarrow>
                             Some (Returns (Inl (Wrapf ''while creating directory to download''
                                                   (OSError e))), r1, w2)
                         | (None, w2) \<Rightarrow>
                             DownloadFiles_loop env snapshotDir (Suc idx) names downloadedPaths
                               (started @ [\<lparr>idxFile = idx, repoFileName = name, fileURL = url,
                                             snapshotPath = snapshot\<rparr>])
                               r1 w2))))"

text \<open>\<open>DownloadFiles repoFiles\<close>: the paths, or the error, or a panic; \<open>None\<close> when a
  goroutine never gets its lock and \<open>wg.Wait\<close> never returns.\<close>

definition DownloadFiles ::
  "env \<Rightarrow> Repo \<Rightarrow> string list \<Rightarrow> world
     \<Rightarrow> ((error + string list) outcome \<times> Repo \<times> world) option" where
  "DownloadFiles env r repoFiles w =
     (if length repoFiles = 0 then Some (Returns (Inr []), r, w)
      else
        (let r0 = getDownloadManager r
         in case repoCacheDir env r0 w of
              (Inl err, w1) \<Rightarrow> Some (Returns (Inl err), r0, w1)
            | (Inr repoDir, w1) \<Rightarrow>
                (case repoSnapshotsDir env r0 w1 of
                   None \<Rightarrow> None
                 | Some (Panics e, r2, w2) \<Rightarrow> Some (Panics e, r2, w2)
                 | Some (Returns (Inl err), r2, w2) \<Rightarrow> Some (Returns (Inl err), r2, w2)
                 | Some (Returns (Inr snapshotDir), r2, w2) \<Rightarrow>
                     (case DownloadFiles_loop env snapshotDir 0 repoFiles
                             (replicate (length repoFiles) []) [] r2 w2 of
                        None \<Rightarrow> None
                      | Some (Panics e, r3, w3) \<Rightarrow> Some (Panics e, r3, w3)
                      | Some (Returns (Inl err), r3, w3) \<Rightarrow> Some (Returns (Inl err), r3, w3)
                      | Some (Returns (Inr (downloadedPaths, started)), r3, w3) \<Rightarrow>
                          (case run_workers env repoDir (run_order (sched env) started)
                                  \<lparr>firstError = None, cancelled = False,
                                   requireDownload = 0, numDownloadedFiles = 0\<rparr> r3 w3 of
                             None \<Rightarrow> None
                           | Some (Panics e) \<Rightarrow> Some (Panics e, r3, w3)
                           | Some (Returns (b, r4, w4)) \<Rightarrow>
                               (case firstError b of
                                  Some err \<Rightarrow> Some (Returns (Inl err), r4, w4)
                                | None \<Rightarrow> Some (Returns (Inr downloadedPaths), r4, w4)))))))"

text \<open>\<open>DownloadFile\<close>: \<open>DownloadFiles\<close> with one file; \<open>res[0]\<close>.\<close>

definition DownloadFile ::
  "env \<Rightarrow> Repo \<Rightarrow> string \<Rightarrow> world \<Rightarrow> ((error + string) outcome \<times> Repo \<times> world) option" where
  "DownloadFile env r file w =
     (case DownloadFiles env r [file] w of
        None \<Rightarrow> None
      | Some (Panics e, r1, w1) \<Rightarrow> Some (Panics e, r1, w1)
      | Some (Returns (Inl err), r1, w1) \<Rightarrow> Some (Returns (Inl err), r1, w1)
      | Some (Returns (Inr res), r1, w1) \<Rightarrow>
          (case res of
             [] \<Rightarrow> Some (Panics (Errorf ''index out of range''), r1, w1)
           | p # _ \<Rightarrow> Some (Returns (Inr p), r1, w1)))"

section \<open>Example environment\<close>

text \<open>A quiet environment: no fault, no contention on locks, no other process; the server
  answers every probe with the content tag \<open>abc\<close> and every body request with four bytes.\<close>

definition example_info :: RepoInfo where
  "example_info =
     \<lparr>info_ID = ''a/b'', ModelID = ''a/b'', Author = ''a'', CommitHash = ''abc123'',
      Tags = [], Siblings = [\<lparr>Name = ''a.txt''\<rparr>, \<lparr>Name = ''b.txt''\<rparr>],
      SafeTensors = \<lparr>Total = 0, Parameters = Map.empty\<rparr>\<rparr>"

definition quiet_env :: env where
  "quiet_env =
     \<lparr>Separator = CHR ''/'',
      stat_denied = (\<lambda>p. False),
      fault = (\<lambda>c. None),
      read_fault = (\<lambda>p. None),
      flock_script = (\<lambda>p n. None),
      interfere = (\<lambda>fs. fs),
      head_response = (\<lambda>u. Inr ([''X-Linked-Etag'' \<mapsto> ''abc''], 4)),
      body_response = (\<lambda>u. (''data'', None)),
      json_decode = (\<lambda>s. Inr example_info),
      filepath_Rel = (\<lambda>base target. Inr target),
      strconv_Atoi = (\<lambda>s. None),
      sched = []\<rparr>"

definition empty_world :: world where
  "empty_world =
     \<lparr>files = Map.empty, handles = Map.empty, next_fd = 3, flocks = {},
      probes = [], transfers = [], syscalls = []\<rparr>"

definition example_repo :: Repo where
  "example_repo =
     \<lparr>ID = ''a/b'', hfEndpoint = ''https://hf.co'', repoType = RepoTypeModel,
      revision = ''main'', authToken = [], Verbosity = 1, MaxParallelDownload = 20,
      cacheDir = ''/c'', info = None, downloadManager = None, useProgressBar = False\<rparr>"

definition contended_env :: env where
  "contended_env = quiet_env\<lparr>flock_script := (\<lambda>p n. if n = 0 then Some EAGAIN else None)\<rparr>"

definition denied_env :: env where
  "denied_env = quiet_env\<lparr>stat_denied := (\<lambda>p. p = ''/c/models--a--b/snapshots/abc123/a.txt'')\<rparr>"

definition resolved_repo :: Repo where
  "resolved_repo = example_repo\<lparr>info := Some example_info\<rparr>"

definition ex_r0 :: Repo where
  "ex_r0 = getDownloadManager resolved_repo"

definition ex_w1 :: "env \<Rightarrow> world" where
  "ex_w1 env = snd (repoCacheDir env ex_r0 empty_world)"

definition ex_r2 :: "env \<Rightarrow> Repo" where
  "ex_r2 env = fst (snd (the (repoSnapshotsDir env ex_r0 (ex_w1 env))))"

definition ex_w2 :: "env \<Rightarrow> world" where
  "ex_w2 env = snd (snd (the (repoSnapshotsDir env ex_r0 (ex_w1 env))))"

definition rename_fails_env :: env where
  "rename_fails_env =
     quiet_env\<lparr>fault := (\<lambda>c. if c = SysRename ''/c/f.downloading'' ''/c/f'' then Some EACCES
                             else None)\<rparr>"

definition close_fails_env :: env where
  "close_fails_env =
     quiet_env\<lparr>fault := (\<lambda>c. if c = SysClose ''/c/f.downloading'' then Some EIO else None)\<rparr>"



definition reverse_env :: env where
  "reverse_env =
     quiet_env\<lparr>sched := [1, 0],
               head_response := (\<lambda>u. Inr ([''X-Linked-Etag'' \<mapsto> (if u = ''https://hf.co/a/b/resolve/abc123/a.txt''
                                                              then ''aaa'' else ''bbb'')], 4))\<rparr>"

section \<open>Notions used in the statements\<close>

text \<open>Two values of the repository that differ at most in the download manager.\<close>

definition same_repo :: "Repo \<Rightarrow> Repo \<Rightarrow> bool" where
  "same_repo r r' =
     (ID r' = ID r \<and> hfEndpoint r' = hfEndpoint r \<and> repoType r' = repoType r
      \<and> revision r' = revision r \<and> cacheDir r' = cacheDir r \<and> info r' = info r)"

text \<open>The snapshots directory of a repository: what \<open>repoSnapshotsDir\<close> returns, as a function
  of the fields of the repository.\<close>

definition snapshots_path :: "Repo \<Rightarrow> string" where
  "snapshots_path r =
     path_Join [path_Join [cacheDir r, flatFolderName r], ''snapshots'',
                (case info r of None \<Rightarrow> [] | Some i \<Rightarrow> CommitHash i)]"

text \<open>The header probe of a URL succeeds and yields an empty content tag, or a
  location that is not the URL.\<close>

definition bad_probe :: "env \<Rightarrow> string \<Rightarrow> bool" where
  "bad_probe env url =
     (case head_response env url of
        Inl err \<Rightarrow> False
      | Inr (header, contentLength) \<Rightarrow>
          ETag (extractFileMetadata env header url contentLength) = []
          \<or> Location (extractFileMetadata env header url contentLength) \<noteq> url)"

section \<open>Properties of the path sanitizer\<close>

lemma Split_nonempty: "strings_Split sep s \<noteq> []"
  by (induction s) auto

lemma Split_no_sep: "x \<in> set (strings_Split sep s) \<Longrightarrow> sep \<notin> set x"
proof (induction s arbitrary: x)
  case Nil
  then show ?case by simp
next
  case (Cons c cs)
  show ?case
  proof (cases "c = sep")
    case True
    with Cons show ?thesis by auto
  next
    case False
    obtain p ps where sp: "strings_Split sep cs = p # ps"
      using Split_nonempty[of sep cs] by (cases "strings_Split sep cs") auto
    with Cons False show ?thesis by auto
  qed
qed

lemma Split_append_sep:
  "strings_Split sep (a @ sep # b) = strings_Split sep a @ strings_Split sep b"
proof (induction a)
  case Nil
  then show ?case by simp
next
  case (Cons c cs)
  obtain p ps where sp: "strings_Split sep cs = p # ps"
    using Split_nonempty[of sep cs] by (cases "strings_Split sep cs") auto
  with Cons show ?case by simp
qed

lemma Split_id: "sep \<notin> set s \<Longrightarrow> strings_Split sep s = [s]"
  by (induction s) auto

lemma takeWhile_dotdot:
  assumes "takeWhile (\<lambda>x. x \<noteq> CHR ''/'') (c # cs) = ''..''"
  shows "c = CHR ''.'' \<and> hd cs = CHR ''.'' \<and> (tl cs = [] \<or> hd (tl cs) = CHR ''/'')"
proof -
  from assms have c: "c = CHR ''.''" and t: "takeWhile (\<lambda>x. x \<noteq> CHR ''/'') cs = ''.''"
    by (auto split: if_splits)
  from t obtain d ds where cs: "cs = d # ds" by (cases cs) auto
  with t have d: "d = CHR ''.''" and u: "takeWhile (\<lambda>x. x \<noteq> CHR ''/'') ds = []"
    by (auto split: if_splits)
  from u have "ds = [] \<or> hd ds = CHR ''/''" by (cases ds) (auto split: if_splits)
  with c cs d show ?thesis by simp
qed

lemma Split_take_drop:
  "strings_Split (CHR ''/'') s =
     takeWhile (\<lambda>x. x \<noteq> CHR ''/'') s #
       (if dropWhile (\<lambda>x. x \<noteq> CHR ''/'') s = [] then []
        else strings_Split (CHR ''/'') (tl (dropWhile (\<lambda>x. x \<noteq> CHR ''/'') s)))"
proof (induction s)
  case Nil
  then show ?case by simp
next
  case (Cons c cs)
  then show ?case by (cases "c = CHR ''/''") auto
qed

lemma Split_drop_subset:
  "set (strings_Split (CHR ''/'') (dropWhile (\<lambda>x. x \<noteq> CHR ''/'') s))
     \<subseteq> insert [] (set (strings_Split (CHR ''/'') s))"
proof (cases "dropWhile (\<lambda>x. x \<noteq> CHR ''/'') s")
  case Nil
  then have "strings_Split (CHR ''/'') (dropWhile (\<lambda>x. x \<noteq> CHR ''/'') s) = [[]]"
    by (simp only: strings_Split.simps)
  then show ?thesis by (simp only: list.set) blast
next
  case (Cons d ds)
  then have d: "d = CHR ''/''"
    using hd_dropWhile[of "\<lambda>x. x \<noteq> CHR ''/''" s] by auto
  have "strings_Split (CHR ''/'') s = takeWhile (\<lambda>x. x \<noteq> CHR ''/'') s # strings_Split (CHR ''/'') ds"
    using Split_take_drop[of s] Cons by simp
  with Cons d show ?thesis by auto
qed

lemma clean_loop_relative:
  assumes "out = [] \<or> hd out \<noteq> CHR ''/''"
    and "''..'' \<notin> set (strings_Split (CHR ''/'') out)"
    and "''..'' \<notin> set (strings_Split (CHR ''/'') rest)"
  shows "(clean_loop False rest out dotdot = [] \<or> hd (clean_loop False rest out dotdot) \<noteq> CHR ''/'')
       \<and> ''..'' \<notin> set (strings_Split (CHR ''/'') (clean_loop False rest out dotdot))"
  using assms
proof (induction "length rest" arbitrary: rest out dotdot rule: less_induct)
  case less
  show ?case
  proof (cases rest)
    case Nil
    with less.prems show ?thesis by simp
  next
    case (Cons c cs)
    let ?P = "\<lambda>x. x \<noteq> CHR ''/''"
    consider (slash) "c = CHR ''/''"
      | (dot) "c \<noteq> CHR ''/''" "c = CHR ''.'' \<and> (cs = [] \<or> hd cs = CHR ''/'')"
      | (dotdot) "c \<noteq> CHR ''/''" "\<not> (c = CHR ''.'' \<and> (cs = [] \<or> hd cs = CHR ''/''))"
          "c = CHR ''.'' \<and> hd cs = CHR ''.'' \<and> (tl cs = [] \<or> hd (tl cs) = CHR ''/'')"
      | (elem) "c \<noteq> CHR ''/''" "\<not> (c = CHR ''.'' \<and> (cs = [] \<or> hd cs = CHR ''/''))"
          "\<not> (c = CHR ''.'' \<and> hd cs = CHR ''.'' \<and> (tl cs = [] \<or> hd (tl cs) = CHR ''/''))"
      by blast
    then show ?thesis
    proof cases
      case slash
      have eq: "clean_loop False rest out dotdot = clean_loop False cs out dotdot"
        using Cons slash by simp
      have "''..'' \<notin> set (strings_Split (CHR ''/'') cs)"
        using less.prems(3) Cons slash by simp
      with less.hyps[of cs out dotdot] less.prems(1,2) Cons eq show ?thesis by simp
    next
      case dot
      have eq: "clean_loop False rest out dotdot = clean_loop False cs out dotdot"
        using Cons dot by simp
      have "''..'' \<notin> set (strings_Split (CHR ''/'') cs)"
      proof (cases cs)
        case Nil
        then show ?thesis by simp
      next
        case (Cons d t)
        with dot have "dropWhile ?P rest = cs"
          using \<open>rest = c # cs\<close> by simp
        with Split_drop_subset[of rest] less.prems(3) show ?thesis by auto
      qed
      with less.hyps[of cs out dotdot] less.prems(1,2) Cons eq show ?thesis by simp
    next
      case dotdot
      then obtain t where cs: "cs = CHR ''.'' # t" and t: "t = [] \<or> hd t = CHR ''/''"
        by (cases cs) auto
      have "takeWhile ?P rest = ''..''"
        using Cons cs t dotdot(3) by (cases t) auto
      then have "''..'' \<in> set (strings_Split (CHR ''/'') rest)"
        using Split_take_drop[of rest] by simp
      with less.prems(3) show ?thesis by simp
    next
      case elem
      let ?e = "takeWhile ?P rest"
      let ?r = "dropWhile ?P rest"
      let ?o = "(if out \<noteq> [] then out @ ''/'' else out) @ ?e"
      have "clean_loop False rest out dotdot =
          clean_loop False ?r
            ((if False \<and> length out \<noteq> 1 \<or> \<not> False \<and> length out \<noteq> 0
              then out @ ''/'' else out) @ ?e) dotdot"
        unfolding Cons by (subst clean_loop.simps(2)) (simp only: elem if_False Let_def)
      then have eq: "clean_loop False rest out dotdot = clean_loop False ?r ?o dotdot"
        by simp
      have len: "length ?r < length rest"
        using Cons elem(1) length_dropWhile_le[of ?P cs] by simp
      have e_in: "?e \<in> set (strings_Split (CHR ''/'') rest)"
        using Split_take_drop[of rest] by simp
      have e_nodd: "?e \<noteq> ''..''"
        using e_in less.prems(3) by auto
      have e_noslash: "CHR ''/'' \<notin> set ?e"
        using set_takeWhileD[of "CHR ''/''" ?P rest] by auto
      have e_hd: "hd ?e \<noteq> CHR ''/''"
        using Cons elem(1) by simp
      have e_ne: "?e \<noteq> []"
        using Cons elem(1) by simp
      have r_ok: "''..'' \<notin> set (strings_Split (CHR ''/'') ?r)"
        using Split_drop_subset[of rest] less.prems(3) by auto
      have o_hd: "?o = [] \<or> hd ?o \<noteq> CHR ''/''"
        using less.prems(1) e_hd e_ne by (cases out) auto
      have o_split: "strings_Split (CHR ''/'') ?o =
          (if out \<noteq> [] then strings_Split (CHR ''/'') out else []) @ [?e]"
        using Split_append_sep[of "CHR ''/''" out ?e] Split_id[OF e_noslash] by simp
      have o_ok: "''..'' \<notin> set (strings_Split (CHR ''/'') ?o)"
        using o_split less.prems(2) e_nodd by (simp split: if_splits)
      from less.hyps[OF len o_hd o_ok r_ok, of dotdot] eq show ?thesis by simp
    qed
  qed
qed

lemma join_buf_relative:
  assumes "\<forall>e \<in> set es. e \<noteq> [] \<and> CHR ''/'' \<notin> set e \<and> e \<noteq> ''..''"
    and "buf = [] \<or> hd buf \<noteq> CHR ''/''"
    and "''..'' \<notin> set (strings_Split (CHR ''/'') buf)"
  shows "(join_buf es buf = [] \<or> hd (join_buf es buf) \<noteq> CHR ''/'')
       \<and> ''..'' \<notin> set (strings_Split (CHR ''/'') (join_buf es buf))
       \<and> (es \<noteq> [] \<longrightarrow> join_buf es buf \<noteq> [])"
  using assms
proof (induction es arbitrary: buf)
  case Nil
  then show ?case by simp
next
  case (Cons e es)
  let ?b = "(if length buf > 0 then buf @ ''/'' else buf) @ e"
  from Cons.prems(1) have e: "e \<noteq> []" "CHR ''/'' \<notin> set e" "e \<noteq> ''..''"
    by auto
  have eq: "join_buf (e # es) buf = join_buf es ?b"
    using e(1) by simp
  have b_hd: "?b = [] \<or> hd ?b \<noteq> CHR ''/''"
    using Cons.prems(2) e(1,2) by (cases buf; cases e) auto
  have b_split: "strings_Split (CHR ''/'') ?b =
      (if buf \<noteq> [] then strings_Split (CHR ''/'') buf else []) @ [e]"
    using Split_append_sep[of "CHR ''/''" buf e] Split_id[OF e(2)] by simp
  have b_ok: "''..'' \<notin> set (strings_Split (CHR ''/'') ?b)"
    using b_split Cons.prems(3) e(3) by (simp split: if_splits)
  have b_ne: "?b \<noteq> []"
    using e(1) by simp
  have rest: "\<forall>e \<in> set es. e \<noteq> [] \<and> CHR ''/'' \<notin> set e \<and> e \<noteq> ''..''"
    using Cons.prems(1) by simp
  from Cons.IH[OF rest b_hd b_ok] have
    ih: "(join_buf es ?b = [] \<or> hd (join_buf es ?b) \<noteq> CHR ''/'')
       \<and> ''..'' \<notin> set (strings_Split (CHR ''/'') (join_buf es ?b))
       \<and> (es \<noteq> [] \<longrightarrow> join_buf es ?b \<noteq> [])" .
  have "join_buf es ?b \<noteq> []"
  proof (cases es)
    case Nil
    with b_ne show ?thesis by simp
  next
    case (Cons a as)
    with ih show ?thesis by simp
  qed
  with ih show ?case unfolding eq by simp
qed

lemma path_Clean_relative:
  assumes "p = [] \<or> hd p \<noteq> CHR ''/''"
    and "''..'' \<notin> set (strings_Split (CHR ''/'') p)"
  shows "\<not> path_IsAbs (path_Clean p) \<and> ''..'' \<notin> set (strings_Split (CHR ''/'') (path_Clean p))"
proof (cases "p = []")
  case True
  then show ?thesis by (simp add: path_Clean_def path_IsAbs_def)
next
  case False
  with assms(1) have nr: "hd p \<noteq> CHR ''/''" by simp
  let ?out = "clean_loop False p [] 0"
  have inv: "(?out = [] \<or> hd ?out \<noteq> CHR ''/'') \<and> ''..'' \<notin> set (strings_Split (CHR ''/'') ?out)"
    using clean_loop_relative[of "[]" p 0] assms(2) by simp
  have "path_Clean p = (if ?out = [] then ''.'' else ?out)"
    using False nr by (simp add: path_Clean_def Let_def)
  with inv show ?thesis by (auto simp: path_IsAbs_def)
qed


text \<open>
  Claim C1. For every input string (and every separator of the operating system), the
  path sanitizer \<open>cleanRelativeFilePath\<close> returns a path that is not absolute and that has
  no \<open>..\<close> segment: joined to the snapshot directory it cannot leave it.
\<close>

theorem cleanRelativeFilePath_confined:
  "\<not> path_IsAbs (cleanRelativeFilePath sep name)
   \<and> ''..'' \<notin> set (strings_Split (CHR ''/'') (cleanRelativeFilePath sep name))"
proof -
  define q where "q = filepath_ToSlash sep
      (path_Clean (path_Join (strings_Split (CHR ''/'') name)))"
  define parts where "parts = slices_DeleteFunc (strings_Split (CHR ''/'') q)
      (\<lambda>s. s = [] \<or> s = ''..'')"
  have res: "cleanRelativeFilePath sep name =
      (if length parts = 0 then ''.'' else path_Join parts)"
    unfolding cleanRelativeFilePath_def Let_def parts_def q_def ..
  show ?thesis
  proof (cases "parts = []")
    case True
    with res show ?thesis by (simp add: path_IsAbs_def)
  next
    case False
    have good: "\<forall>e \<in> set parts. e \<noteq> [] \<and> CHR ''/'' \<notin> set e \<and> e \<noteq> ''..''"
      using Split_no_sep[of _ "CHR ''/''" q]
      unfolding parts_def slices_DeleteFunc_def by simp
    define buf where "buf = join_buf parts []"
    have buf: "(buf = [] \<or> hd buf \<noteq> CHR ''/'')
       \<and> ''..'' \<notin> set (strings_Split (CHR ''/'') buf)
       \<and> (parts \<noteq> [] \<longrightarrow> buf \<noteq> [])"
      unfolding buf_def by (rule join_buf_relative[OF good]) simp_all
    from False obtain a as where "parts = a # as"
      by (cases parts) auto
    with good have "concat parts \<noteq> []"
      by simp
    then have "length (concat parts) \<noteq> 0"
      by (simp only: length_0_conv not_False_eq_True)
    then have "path_Join parts = path_Clean buf"
      unfolding path_Join_def buf_def by (simp only: if_False)
    with res False have "cleanRelativeFilePath sep name = path_Clean buf"
      by simp
    with path_Clean_relative[of buf] buf show ?thesis by simp
  qed
qed

section \<open>Properties of the semaphore\<close>

lemma run_acquires:
  "n \<le> nat c \<Longrightarrow> sem_run (NewSemaphore c) (map EvAcquire [0..<n]) =
     \<lparr>capacity = c, current = int n, waiters = [], woken = [], admitted = [0..<n]\<rparr>"
proof (induction n)
  case 0
  then show ?case by (simp add: sem_run_def NewSemaphore_def)
next
  case (Suc n)
  then have "int n < c" by linarith
  with Suc show ?case
    by (simp add: sem_run_def Acquire_iter_def admits_def)
qed

lemma full_stays_full:
  assumes "0 < capacity s" "capacity s \<le> current s" "\<forall>e \<in> set es. is_wait_event e"
  shows "admitted (sem_run s es) = admitted s \<and> capacity (sem_run s es) = capacity s
       \<and> current (sem_run s es) = current s"
  using assms
proof (induction es arbitrary: s)
  case Nil
  then show ?case by (simp add: sem_run_def)
next
  case (Cons e es)
  have step: "admitted (sem_step s e) = admitted s \<and> capacity (sem_step s e) = capacity s
       \<and> current (sem_step s e) = current s"
    using Cons.prems by (cases e) (auto simp: Acquire_iter_def admits_def)
  with Cons.IH[of "sem_step s e"] Cons.prems show ?case
    by (simp add: sem_run_def)
qed

text \<open>
  Claim C4. With a positive capacity \<open>c\<close> the semaphore lets an \<open>Acquire\<close> through exactly
  when the number of holders \<open>current\<close> is below \<open>c\<close>; with a capacity of zero or less it
  lets every \<open>Acquire\<close> through. After \<open>c\<close> acquisitions on a new semaphore of capacity
  \<open>c\<close> the \<open>c\<close> callers hold it, a further caller \<open>g\<close> waits, it keeps waiting whatever
  calls of \<open>Acquire\<close> and wake-ups follow as long as nobody releases, and it is let through
  after a \<open>Release\<close>.
\<close>

theorem Acquire_admission:
  "(0 < capacity s \<longrightarrow> (admits s \<longleftrightarrow> current s < capacity s))
   \<and> (capacity s \<le> 0 \<longrightarrow> admits s)
   \<and> (0 < c \<longrightarrow>
        (let full = sem_run (NewSemaphore c) (map EvAcquire [0..<nat c]);
             blocked = sem_step full (EvAcquire g)
         in admitted full = [0..<nat c] \<and> current full = c \<and> \<not> admits full
          \<and> admitted blocked = admitted full \<and> waiters blocked = [g]
          \<and> (\<forall>es. (\<forall>e \<in> set es. is_wait_event e) \<longrightarrow>
                 admitted (sem_run blocked es) = admitted full)
          \<and> admitted (sem_run blocked [EvRelease, EvResume g]) = admitted full @ [g]))"
proof (intro conjI impI)
  assume "0 < capacity s"
  then show "admits s \<longleftrightarrow> current s < capacity s" by (simp add: admits_def)
next
  assume "capacity s \<le> 0"
  then show "admits s" by (simp add: admits_def)
next
  assume c: "0 < c"
  define full where "full = sem_run (NewSemaphore c) (map EvAcquire [0..<nat c])"
  define blocked where "blocked = sem_step full (EvAcquire g)"
  have full: "full = \<lparr>capacity = c, current = c, waiters = [], woken = [], admitted = [0..<nat c]\<rparr>"
    unfolding full_def using run_acquires[of "nat c" c] c by simp
  have blocked: "blocked = \<lparr>capacity = c, current = c, waiters = [g], woken = [], admitted = [0..<nat c]\<rparr>"
    unfolding blocked_def full using c by (simp add: Acquire_iter_def admits_def)
  have stay: "\<forall>es. (\<forall>e \<in> set es. is_wait_event e) \<longrightarrow> admitted (sem_run blocked es) = admitted full"
  proof (intro allI impI)
    fix es assume "\<forall>e \<in> set es. is_wait_event e"
    with full_stays_full[of blocked es] c show "admitted (sem_run blocked es) = admitted full"
      by (simp add: blocked full)
  qed
  have rel: "admitted (sem_run blocked [EvRelease, EvResume g]) = admitted full @ [g]"
    using c by (simp add: blocked full sem_run_def Release_def Signal_def Acquire_iter_def admits_def Let_def)
  show "let full = sem_run (NewSemaphore c) (map EvAcquire [0..<nat c]);
            blocked = sem_step full (EvAcquire g)
        in admitted full = [0..<nat c] \<and> current full = c \<and> \<not> admits full
          \<and> admitted blocked = admitted full \<and> waiters blocked = [g]
          \<and> (\<forall>es. (\<forall>e \<in> set es. is_wait_event e) \<longrightarrow>
                 admitted (sem_run blocked es) = admitted full)
          \<and> admitted (sem_run blocked [EvRelease, EvResume g]) = admitted full @ [g]"
    unfolding Let_def full_def[symmetric] blocked_def[symmetric]
    using stay rel c by (simp add: full blocked admits_def)
qed

text \<open>
  Claim C8. \<open>Resize\<close> to a smaller positive capacity changes the field \<open>capacity\<close> and
  nothing else: the number of holders, the holders and the waiting goroutines are the same
  (nobody is woken, nobody is made to release), and from then on an \<open>Acquire\<close> is let
  through exactly when the number of holders is below the new capacity.
\<close>

theorem Resize_shrink_frame:
  assumes "0 < newCapacity" and "newCapacity < capacity s"
  shows "Resize newCapacity s = s\<lparr>capacity := newCapacity\<rparr>
       \<and> current (Resize newCapacity s) = current s
       \<and> admitted (Resize newCapacity s) = admitted s
       \<and> waiters (Resize newCapacity s) = waiters s
       \<and> woken (Resize newCapacity s) = woken s
       \<and> (admits (Resize newCapacity s) \<longleftrightarrow> current s < newCapacity)"
  using assms by (simp add: Resize_def admits_def)

theorem Acquire_admission_witness:
  "(0 < capacity (NewSemaphore 2) \<and> admits (NewSemaphore 2))
   \<and> (capacity (NewSemaphore 0) \<le> 0 \<and> admits (NewSemaphore 0))
   \<and> ((0::int) < 2
      \<and> admitted (sem_run (NewSemaphore 2) [EvAcquire 0, EvAcquire 1, EvAcquire 7]) = [0, 1]
      \<and> admitted (sem_run (NewSemaphore 2)
            [EvAcquire 0, EvAcquire 1, EvAcquire 7, EvRelease, EvResume 7]) = [0, 1, 7])"
  using Acquire_admission[of "NewSemaphore 2" 2 7] Acquire_admission[of "NewSemaphore 0" 2 7]
  by (simp add: NewSemaphore_def sem_run_def Let_def Acquire_iter_def admits_def
      Release_def Signal_def)

theorem Resize_shrink_frame_witness:
  "(0::int) < 1 \<and> 1 < capacity (sem_run (NewSemaphore 3) [EvAcquire 0, EvAcquire 1])
   \<and> current (Resize 1 (sem_run (NewSemaphore 3) [EvAcquire 0, EvAcquire 1])) = 2
   \<and> admitted (Resize 1 (sem_run (NewSemaphore 3) [EvAcquire 0, EvAcquire 1])) = [0, 1]
   \<and> \<not> admits (Resize 1 (sem_run (NewSemaphore 3) [EvAcquire 0, EvAcquire 1]))"
  using Resize_shrink_frame[of 1 "sem_run (NewSemaphore 3) [EvAcquire 0, EvAcquire 1]"]
  by (simp add: NewSemaphore_def sem_run_def Acquire_iter_def admits_def)

section \<open>Properties of the file lock\<close>

lemma flock_loop_ends:
  assumes "script k \<noteq> Some EAGAIN" and "\<forall>j. n \<le> j \<and> j < k \<longrightarrow> script j = Some EAGAIN" and "n \<le> k"
  shows "flock_loop script n = Some (k, script k)"
  using assms
proof (induction "k - n" arbitrary: n)
  case 0
  then have "n = k" by simp
  with 0 show ?case
    by (subst flock_loop.simps) (auto split: option.splits)
next
  case (Suc d)
  then have n: "script n = Some EAGAIN" and lt: "n < k" by auto
  have "flock_loop script (Suc n) = Some (k, script k)"
    using Suc by (intro Suc.hyps(1)) auto
  with n show ?case
    by (subst flock_loop.simps) simp
qed

lemma file_Close_released: "f \<notin> flocks (snd (file_Close env f w)) \<and> handles (snd (file_Close env f w)) f = None"
  by (simp add: file_Close_def log_syscall_def split: option.splits)

lemma deferred_unlock_None: "deferred_unlock env f lockPath None w = (None, w)"
  by (simp add: deferred_unlock_def)

text \<open>
  Claim C9. Once the exclusive lock is taken (the lock file opens, and some attempt to
  lock it succeeds after any number of \<open>EAGAIN\<close>), \<open>execOnFileLock\<close> runs the guarded
  function with the lock held and then comes back to its caller, by return or by the
  panic of the guarded function, in a world where the lock is released and the
  descriptor closed. The deferred \<open>LOCK_UN\<close> is never issued, because \<open>err\<close> is nil when
  the deferred function tests \<open>err != nil\<close>: closing the lock file releases the lock.
\<close>

theorem execOnFileLock_releases:
  assumes "os_OpenFile env lockPath w = (Inr f, w1)"
    and "flock_script env lockPath k = None"
    and "\<forall>j<k. flock_script env lockPath j = Some EAGAIN"
    and "w2 = w1\<lparr>syscalls := syscalls w1 @ replicate (Suc k) (SysFlockEx lockPath),
                  flocks := insert f (flocks w1),
                  files := interfere env (files w1)\<rparr>"
  shows "f \<in> flocks w2
       \<and> execOnFileLock env lockPath fn w =
           Some (case fst (fn w2) of Panics e \<Rightarrow> Panics e | Returns a \<Rightarrow> Returns (None, Some a),
                 snd (file_Close env f (snd (fn w2))))
       \<and> f \<notin> flocks (snd (file_Close env f (snd (fn w2))))
       \<and> handles (snd (file_Close env f (snd (fn w2)))) f = None"
proof -
  have loop: "flock_loop (flock_script env lockPath) 0 = Some (k, None)"
    using flock_loop_ends[of "flock_script env lockPath" k 0] assms(2,3) by simp
  obtain out w3 where fn: "fn w2 = (out, w3)"
    by (cases "fn w2")
  obtain ce w5 where cl: "file_Close env f w3 = (ce, w5)"
    by (cases "file_Close env f w3")
  have "execOnFileLock env lockPath fn w =
           Some (case out of Panics e \<Rightarrow> Panics e | Returns a \<Rightarrow> Returns (None, Some a), w5)"
    unfolding execOnFileLock_def assms(1) loop
    using fn cl unfolding assms(4)
    by (simp add: deferred_unlock_None split: outcome.splits)
  with file_Close_released[of f env w3] assms(4) fn cl show ?thesis by simp
qed

theorem execOnFileLock_releases_witness:
  "fst (os_OpenFile contended_env ''x.lock'' empty_world) = Inr 3
   \<and> flock_script contended_env ''x.lock'' 0 = Some EAGAIN
   \<and> flock_script contended_env ''x.lock'' 1 = None
   \<and> (\<exists>w'. execOnFileLock contended_env ''x.lock'' (\<lambda>w. (Panics (Errorf ''boom'') :: unit outcome, w))
               empty_world = Some (Panics (Errorf ''boom''), w')
            \<and> 3 \<notin> flocks w' \<and> handles w' 3 = None)
   \<and> (\<exists>w'. execOnFileLock contended_env ''x.lock'' (\<lambda>w. (Returns (), w))
               empty_world = Some (Returns (None, Some ()), w')
            \<and> 3 \<notin> flocks w' \<and> handles w' 3 = None)"
proof -
  have op: "os_OpenFile contended_env ''x.lock'' empty_world =
      (Inr 3, snd (os_OpenFile contended_env ''x.lock'' empty_world))"
    by (simp add: os_OpenFile_def contended_env_def quiet_env_def empty_world_def log_syscall_def)
  have s0: "\<forall>j<1. flock_script contended_env ''x.lock'' j = Some EAGAIN"
    by (simp add: contended_env_def quiet_env_def)
  have s1: "flock_script contended_env ''x.lock'' 1 = None"
    by (simp add: contended_env_def quiet_env_def)
  note a = execOnFileLock_releases[OF op s1 s0 refl,
      of "\<lambda>w. (Panics (Errorf ''boom'') :: unit outcome, w)"]
  note b = execOnFileLock_releases[OF op s1 s0 refl, of "\<lambda>w. (Returns (), w)"]
  have f3: "fst (os_OpenFile contended_env ''x.lock'' empty_world) = Inr 3"
    by (simp add: os_OpenFile_def contended_env_def quiet_env_def empty_world_def log_syscall_def)
  have s00: "flock_script contended_env ''x.lock'' 0 = Some EAGAIN"
    by (simp add: contended_env_def quiet_env_def)
  from a b f3 s00 s1 show ?thesis by simp
qed

section \<open>Properties of the existence check\<close>

lemma fileExists_cases:
  "fileExists env w p =
     (case os_Stat env w p of None \<Rightarrow> Returns True
      | Some e \<Rightarrow> if e = ENOENT then Returns False else Panics (OSError e))"
  by (simp add: fileExists_def is_ErrNotExist_def split: option.splits)

text \<open>
  Claim C10. \<open>fileExists\<close> returns true exactly when \<open>stat\<close> succeeds and false exactly
  when the path does not exist; when \<open>stat\<close> fails with any other error it panics with
  that error. So \<open>lockedDownload\<close> panics when \<open>stat\<close> fails so on its destination, and
  \<open>DownloadFiles\<close> panics when \<open>stat\<close> fails so on the snapshot path of the first
  requested file.
\<close>

theorem fileExists_panics:
  "(fileExists env w p = Returns True \<longleftrightarrow> os_Stat env w p = None)
   \<and> (fileExists env w p = Returns False \<longleftrightarrow> os_Stat env w p = Some ENOENT)
   \<and> (\<forall>e. os_Stat env w p = Some e \<and> e \<noteq> ENOENT \<longrightarrow>
          fileExists env w p = Panics (OSError e)
          \<and> lockedDownload env ctxDone url p forceDownload r w = Some (Panics (OSError e), r, w))
   \<and> (\<forall>e repoDir w1 snapshotDir r2 w2 u r3 w3.
          repoCacheDir env (getDownloadManager r) w = (Inr repoDir, w1)
          \<and> repoSnapshotsDir env (getDownloadManager r) w1 = Some (Returns (Inr snapshotDir), r2, w2)
          \<and> FileURL env r2 name w2 = Some (Returns (Inr u), r3, w3)
          \<and> cleanRelativeFilePath (Separator env) name \<noteq> ''.''
          \<and> os_Stat env w3 (path_Join [snapshotDir, cleanRelativeFilePath (Separator env) name]) = Some e
          \<and> e \<noteq> ENOENT \<longrightarrow>
          DownloadFiles env r (name # names) w = Some (Panics (OSError e), r3, w3))"
proof (intro conjI allI impI)
  show "fileExists env w p = Returns True \<longleftrightarrow> os_Stat env w p = None"
    by (simp add: fileExists_cases split: option.splits)
  show "fileExists env w p = Returns False \<longleftrightarrow> os_Stat env w p = Some ENOENT"
    by (simp add: fileExists_cases split: option.splits)
next
  fix e assume "os_Stat env w p = Some e \<and> e \<noteq> ENOENT"
  then show "fileExists env w p = Panics (OSError e)"
    by (simp add: fileExists_cases)
next
  fix e assume "os_Stat env w p = Some e \<and> e \<noteq> ENOENT"
  then have "fileExists env w p = Panics (OSError e)"
    by (simp add: fileExists_cases)
  then show "lockedDownload env ctxDone url p forceDownload r w = Some (Panics (OSError e), r, w)"
    by (simp add: lockedDownload_def)
next
  fix e repoDir w1 snapshotDir r2 w2 u r3 w3
  assume a: "repoCacheDir env (getDownloadManager r) w = (Inr repoDir, w1)
          \<and> repoSnapshotsDir env (getDownloadManager r) w1 = Some (Returns (Inr snapshotDir), r2, w2)
          \<and> FileURL env r2 name w2 = Some (Returns (Inr u), r3, w3)
          \<and> cleanRelativeFilePath (Separator env) name \<noteq> ''.''
          \<and> os_Stat env w3 (path_Join [snapshotDir, cleanRelativeFilePath (Separator env) name]) = Some e
          \<and> e \<noteq> ENOENT"
  then have "fileExists env w3 (path_Join [snapshotDir, cleanRelativeFilePath (Separator env) name])
      = Panics (OSError e)"
    by (simp add: fileExists_cases)
  with a have "DownloadFiles_loop env snapshotDir 0 (name # names)
      (replicate (length (name # names)) []) [] r2 w2 = Some (Panics (OSError e), r3, w3)"
    by (simp add: Let_def del: replicate.simps)
  with a show "DownloadFiles env r (name # names) w = Some (Panics (OSError e), r3, w3)"
    by (simp add: DownloadFiles_def Let_def del: replicate.simps DownloadFiles_loop.simps)
qed

lemmas os_defs = log_syscall_def os_Stat_def is_ErrNotExist_def fileExists_def files_Exists_def
  os_Remove_def dir_chain_def os_MkdirAll_def os_Create_def os_OpenFile_def file_Close_def
  os_Rename_def os_Symlink_def os_ReadFile_def syscall_Flock_UN_def

lemmas example_defs = example_info_def quiet_env_def empty_world_def example_repo_def

lemma ex_repoDir: "path_Join [''/c'', ''models--a--b''] = ''/c/models--a--b''"
  by code_simp

lemma ex_snapDir: "path_Join [''/c/models--a--b'', ''snapshots'', ''abc123''] = ''/c/models--a--b/snapshots/abc123''"
  by code_simp

lemma ex_snapPath: "path_Join [''/c/models--a--b/snapshots/abc123'', ''a.txt''] = ''/c/models--a--b/snapshots/abc123/a.txt''"
  by code_simp

lemma ex_clean: "cleanRelativeFilePath (CHR ''/'') ''a.txt'' = ''a.txt''"
  by code_simp

lemma ex_flat: "flatFolderName resolved_repo = ''models--a--b''"
  by code_simp

lemma ex_chain1: "dir_chain ''/c/models--a--b'' = [''/c'', ''/c/models--a--b'']"
  by code_simp

lemma ex_chain2: "dir_chain ''/c/models--a--b/snapshots/abc123'' =
   [''/c'', ''/c/models--a--b'', ''/c/models--a--b/snapshots'', ''/c/models--a--b/snapshots/abc123'']"
  by code_simp

lemma ex_c1: "fst (repoCacheDir denied_env ex_r0 empty_world) = Inr ''/c/models--a--b''"
  by code_simp

lemma ex_c2: "map_option fst (repoSnapshotsDir denied_env ex_r0 (ex_w1 denied_env)) = Some (Returns (Inr ''/c/models--a--b/snapshots/abc123''))"
  by code_simp

lemma ex_c3: "map_option fst (FileURL denied_env (ex_r2 denied_env) ''a.txt'' (ex_w2 denied_env)) = Some (Returns (Inr ''https://hf.co/a/b/resolve/abc123/a.txt''))"
  by code_simp


lemma option_triple:
  "map_option fst x = Some a \<Longrightarrow> x = Some (a, fst (snd (the x)), snd (snd (the x)))"
  by (cases x) auto

theorem fileExists_panics_witness:
  "os_Stat denied_env empty_world ''/c/models--a--b/snapshots/abc123/a.txt'' = Some EACCES
   \<and> EACCES \<noteq> ENOENT
   \<and> fileExists denied_env empty_world ''/c/models--a--b/snapshots/abc123/a.txt'' = Panics (OSError EACCES)
   \<and> lockedDownload denied_env False ''u'' ''/c/models--a--b/snapshots/abc123/a.txt'' False
        resolved_repo empty_world = Some (Panics (OSError EACCES), resolved_repo, empty_world)
   \<and> (\<exists>r3 w3. DownloadFiles denied_env resolved_repo [''a.txt''] empty_world
                 = Some (Panics (OSError EACCES), r3, w3))"
proof -
  let ?p = "''/c/models--a--b/snapshots/abc123/a.txt''"
  note t = fileExists_panics[of denied_env empty_world ?p False "''u''" False resolved_repo "''a.txt''" "[]"]
  have st: "\<And>w. os_Stat denied_env w ?p = Some EACCES"
    by (simp add: os_Stat_def denied_env_def quiet_env_def)
  have sep: "Separator denied_env = CHR ''/''"
    by (simp add: denied_env_def quiet_env_def)
  have h1: "repoCacheDir denied_env (getDownloadManager resolved_repo) empty_world
      = (Inr ''/c/models--a--b'', (ex_w1 denied_env))"
    using ex_c1 by (simp add: ex_w1_def ex_r0_def prod_eq_iff)
  have h2: "repoSnapshotsDir denied_env (getDownloadManager resolved_repo) (ex_w1 denied_env)
      = Some (Returns (Inr ''/c/models--a--b/snapshots/abc123''), (ex_r2 denied_env), (ex_w2 denied_env))"
    using option_triple[OF ex_c2] by (simp add: ex_r2_def ex_w2_def ex_r0_def)
  obtain r3 w3 where h3: "FileURL denied_env (ex_r2 denied_env) ''a.txt'' (ex_w2 denied_env)
      = Some (Returns (Inr ''https://hf.co/a/b/resolve/abc123/a.txt''), r3, w3)"
    using option_triple[OF ex_c3] by blast
  from t st h1 h2 h3 sep show ?thesis
    by (simp add: ex_clean ex_snapPath)
qed

section \<open>Properties of the single-file fetcher\<close>

lemma os_Stat_files: "files w = files w' \<Longrightarrow> os_Stat env w p = os_Stat env w' p"
  by (simp add: os_Stat_def split: option.splits node.splits)

lemma fileExists_files: "files w = files w' \<Longrightarrow> fileExists env w p = fileExists env w' p"
  by (simp add: fileExists_def os_Stat_files[of w w'])

lemma files_file_Close: "files (snd (file_Close env f w)) = files w"
  by (simp add: file_Close_def log_syscall_def split: option.splits)

lemma execOnFileLock_ran:
  assumes "execOnFileLock env lockPath fn w = Some (Returns (errLock, ret), w')"
  shows "(ret = None \<and> errLock \<noteq> None)
       \<or> (\<exists>a w2 w3. ret = Some a \<and> errLock = None \<and> fn w2 = (Returns a, w3) \<and> files w' = files w3)"
proof (cases "os_OpenFile env lockPath w")
  case (Pair res w1)
  show ?thesis
  proof (cases res)
    case (Inl e)
    with Pair assms show ?thesis by (auto simp: execOnFileLock_def)
  next
    case (Inr f)
    show ?thesis
    proof (cases "flock_loop (flock_script env lockPath) 0")
      case None
      with Pair Inr assms show ?thesis by (simp add: execOnFileLock_def)
    next
      case (Some nr)
      obtain n lr where nr: "nr = (n, lr)" by (cases nr)
      show ?thesis
      proof (cases lr)
        case (Some e)
        with Pair Inr \<open>flock_loop (flock_script env lockPath) 0 = Some nr\<close> nr assms show ?thesis
          by (auto simp: execOnFileLock_def Let_def split: prod.splits)
      next
        case None
        let ?w2 = "w1\<lparr>syscalls := syscalls w1 @ replicate (Suc n) (SysFlockEx lockPath),
                       flocks := insert f (flocks w1), files := interfere env (files w1)\<rparr>"
        obtain out w3 where fn: "fn ?w2 = (out, w3)" by (cases "fn ?w2")
        have "execOnFileLock env lockPath fn w =
            (case out of Panics e \<Rightarrow> Some (Panics e, snd (file_Close env f w3))
             | Returns a \<Rightarrow> Some (Returns (None, Some a), snd (file_Close env f w3)))"
          using Pair Inr \<open>flock_loop (flock_script env lockPath) 0 = Some nr\<close> nr None fn
          by (auto simp: execOnFileLock_def deferred_unlock_None split: prod.splits outcome.splits)
        with assms fn files_file_Close[of env f w3] show ?thesis
          by (cases out) auto
      qed
    qed
  qed
qed

lemma append_neq_self: "ys \<noteq> [] \<Longrightarrow> xs @ ys \<noteq> xs"
  by simp

lemma lockedDownload_fn_success:
  assumes "lockedDownload_fn env url filePath (filePath @ ''.lock'') r w = (Returns (None, r1), w')"
  shows "fileExists env w' filePath = Returns True"
proof (cases "os_Stat env w filePath")
  case None
  with assms show ?thesis
    by (simp add: lockedDownload_fn_def fileExists_cases)
next
  case (Some e)
  show ?thesis
  proof (cases "e = ENOENT")
    case False
    with Some assms show ?thesis
      by (simp add: lockedDownload_fn_def fileExists_cases)
  next
    case True
    with Some have nd: "\<not> stat_denied env filePath"
      by (auto simp: os_Stat_def split: if_splits)
    have fe: "fileExists env w filePath = Returns False"
      using Some True by (simp add: fileExists_cases)
    have ne1: "filePath @ ''.downloading'' \<noteq> filePath" and ne2: "filePath @ ''.lock'' \<noteq> filePath"
      by simp_all
    from assms fe have "\<exists>c. files w' filePath = Some (File c)"
      using ne1 ne2
      by (auto simp: lockedDownload_fn_def Let_def os_Create_def Manager_Download_def
          file_Close_def os_Rename_def os_Remove_def tmp_cleanup_def log_syscall_def
          split: prod.splits sum.splits option.splits if_splits)
    with nd show ?thesis
      by (auto simp: fileExists_cases os_Stat_def)
  qed
qed

text \<open>
  Claim C2. When the destination exists and no refresh is asked for, \<open>lockedDownload\<close>
  returns nil at once and leaves the world as it was: no transfer, no deletion, no
  write, the destination unchanged. And after any call that returned nil the
  destination exists, so that a second call (without refresh) is such a no-op.
\<close>

theorem lockedDownload_idempotent:
  "(fileExists env w filePath = Returns True \<longrightarrow>
      lockedDownload env ctxDone url filePath False r w = Some (Returns None, r, w))
   \<and> (lockedDownload env ctxDone url filePath forceDownload r w = Some (Returns None, r1, w1) \<longrightarrow>
        fileExists env w1 filePath = Returns True
        \<and> lockedDownload env ctxDone' url filePath False r1 w1 = Some (Returns None, r1, w1))"
proof (intro conjI impI)
  assume "fileExists env w filePath = Returns True"
  then show "lockedDownload env ctxDone url filePath False r w = Some (Returns None, r, w)"
    by (simp add: lockedDownload_def)
next
  assume ok: "lockedDownload env ctxDone url filePath forceDownload r w = Some (Returns None, r1, w1)"
  have ex: "fileExists env w1 filePath = Returns True"
  proof (cases "fileExists env w filePath")
    case (Panics e)
    with ok show ?thesis by (simp add: lockedDownload_def)
  next
    case (Returns ex)
    show ?thesis
    proof (cases "ex \<and> \<not> forceDownload")
      case True
      with ok Returns show ?thesis by (simp add: lockedDownload_def)
    next
      case False
      obtain re wa where rm: "(if ex then os_Remove env filePath w else (None, w)) = (re, wa)"
        by (cases "if ex then os_Remove env filePath w else (None, w)")
      obtain me wb where mk: "os_MkdirAll env (path_Dir filePath) wa = (me, wb)"
        by (cases "os_MkdirAll env (path_Dir filePath) wa")
      from ok Returns False rm mk obtain errLock ret where
        lk: "execOnFileLock env (filePath @ ''.lock'')
              (lockedDownload_fn env url filePath (filePath @ ''.lock'') r) wb
             = Some (Returns (errLock, ret), w1)"
        and res: "(ret = None \<and> errLock = None) \<or> (\<exists>r'. ret = Some (None, r') \<and> errLock = None)"
        by (auto simp: lockedDownload_def Let_def
            split: if_splits option.splits prod.splits outcome.splits)
      from execOnFileLock_ran[OF lk] res obtain r' w2 w3 where
        "lockedDownload_fn env url filePath (filePath @ ''.lock'') r w2 = (Returns (None, r'), w3)"
        and "files w1 = files w3"
        by auto
      with lockedDownload_fn_success[of env url filePath r w2 r' w3]
        fileExists_files[of w1 w3 env filePath] show ?thesis by simp
    qed
  qed
  then show "fileExists env w1 filePath = Returns True" .
  from ex show "lockedDownload env ctxDone' url filePath False r1 w1 = Some (Returns None, r1, w1)"
    by (simp add: lockedDownload_def)
qed

lemma ex_first_call:
  "map_option fst (lockedDownload quiet_env False ''u'' ''/c/f'' False example_repo empty_world)
     = Some (Returns None)"
  by code_simp

lemma ex_first_call_transfers:
  "transfers (snd (snd (the (lockedDownload quiet_env False ''u'' ''/c/f'' False example_repo empty_world))))
     = [(''u'', ''/c/f.downloading'')]"
  by code_simp

theorem lockedDownload_idempotent_witness:
  "\<exists>r1 w1. lockedDownload quiet_env False ''u'' ''/c/f'' False example_repo empty_world
              = Some (Returns None, r1, w1)
           \<and> transfers w1 = [(''u'', ''/c/f.downloading'')]
           \<and> fileExists quiet_env w1 ''/c/f'' = Returns True
           \<and> lockedDownload quiet_env False ''u'' ''/c/f'' False r1 w1 = Some (Returns None, r1, w1)
           \<and> lockedDownload quiet_env True ''u'' ''/c/f'' False r1 w1 = Some (Returns None, r1, w1)"
proof -
  obtain r1 w1 where c1: "lockedDownload quiet_env False ''u'' ''/c/f'' False example_repo empty_world
              = Some (Returns None, r1, w1)"
    using option_triple[OF ex_first_call] by blast
  with ex_first_call_transfers have tr: "transfers w1 = [(''u'', ''/c/f.downloading'')]"
    by simp
  note a = lockedDownload_idempotent[of quiet_env empty_world "''/c/f''" False "''u''" example_repo
      False r1 w1 False, THEN conjunct2, rule_format, OF c1]
  note b = lockedDownload_idempotent[of quiet_env w1 "''/c/f''" True "''u''" r1 False r1 w1 True,
      THEN conjunct1, rule_format, OF conjunct1[OF a]]
  from a b c1 tr show ?thesis by blast
qed

section \<open>The temporary file after a failed rename\<close>

text \<open>
  Claim C3 at a failing input. The rename of the temporary file fails. \<open>lockedDownload\<close>
  returns the error of the rename, nothing is at the destination, and the temporary
  file is still there with the downloaded bytes: \<open>tmpFileClosed\<close> is already true when
  the deferred function runs, so it removes nothing. The same happens when closing the
  temporary file fails.
\<close>

theorem lockedDownload_leaves_temp_file:
  "map_option fst (lockedDownload rename_fails_env False ''u'' ''/c/f'' False example_repo empty_world)
     = Some (Returns (Some (Wrapf ''failed to move downloaded file'' (OSError EACCES))))
   \<and> files (snd (snd (the (lockedDownload rename_fails_env False ''u'' ''/c/f'' False
                              example_repo empty_world)))) ''/c/f.downloading''
     = Some (File ''data'')
   \<and> files (snd (snd (the (lockedDownload rename_fails_env False ''u'' ''/c/f'' False
                              example_repo empty_world)))) ''/c/f'' = None
   \<and> SysRemove ''/c/f.downloading''
       \<notin> set (syscalls (snd (snd (the (lockedDownload rename_fails_env False ''u'' ''/c/f'' False
                                          example_repo empty_world)))))
   \<and> map_option fst (lockedDownload close_fails_env False ''u'' ''/c/f'' False example_repo empty_world)
     = Some (Returns (Some (Wrapf ''failed to close temporary download file'' (OSError EIO))))
   \<and> files (snd (snd (the (lockedDownload close_fails_env False ''u'' ''/c/f'' False
                              example_repo empty_world)))) ''/c/f.downloading''
     = Some (File ''data'')"
  by code_simp

section \<open>What the operations leave unchanged\<close>

lemma same_repo_refl: "same_repo r r"
  by (simp add: same_repo_def)

lemma same_repo_trans: "same_repo r r' \<Longrightarrow> same_repo r' r'' \<Longrightarrow> same_repo r r''"
  by (simp add: same_repo_def)

lemma same_repo_getDownloadManager: "same_repo r (getDownloadManager r)"
  by (simp add: same_repo_def getDownloadManager_def)

lemma getDownloadManager_idem: "downloadManager r \<noteq> None \<Longrightarrow> getDownloadManager r = r"
  by (simp add: getDownloadManager_def)

lemma probes_os_Remove: "probes (snd (os_Remove env p w)) = probes w"
  by (simp add: os_Remove_def log_syscall_def Let_def split: option.splits)

lemma probes_os_MkdirAll: "probes (snd (os_MkdirAll env p w)) = probes w"
  by (simp add: os_MkdirAll_def log_syscall_def Let_def split: option.splits)

lemma probes_os_Create: "probes (snd (os_Create env p w)) = probes w"
  by (simp add: os_Create_def log_syscall_def Let_def split: option.splits)

lemma probes_os_OpenFile: "probes (snd (os_OpenFile env p w)) = probes w"
  by (simp add: os_OpenFile_def log_syscall_def Let_def split: option.splits)

lemma probes_file_Close: "probes (snd (file_Close env f w)) = probes w"
  by (simp add: file_Close_def log_syscall_def Let_def split: option.splits)

lemma probes_os_Rename: "probes (snd (os_Rename env a b w)) = probes w"
  by (simp add: os_Rename_def log_syscall_def Let_def split: option.splits)

lemma probes_os_Symlink: "probes (snd (os_Symlink env l t d w)) = probes w"
  by (simp add: os_Symlink_def log_syscall_def Let_def split: option.splits)

lemma probes_Manager_Download: "probes (snd (Manager_Download env u p w)) = probes w"
  by (simp add: Manager_Download_def)

lemma probes_tmp_cleanup: "probes (tmp_cleanup env c f p w) = probes w"
  by (simp add: tmp_cleanup_def probes_os_Remove probes_file_Close)

lemmas probes_os = probes_os_Remove probes_os_MkdirAll probes_os_Create probes_os_OpenFile
  probes_file_Close probes_os_Rename probes_os_Symlink probes_Manager_Download probes_tmp_cleanup

lemma snd_eqD: "f x = (a, b) \<Longrightarrow> b = snd (f x)"
  by simp

lemma lockedDownload_fn_frame:
  assumes "lockedDownload_fn env url filePath lockPath r w = (out, w')"
  shows "probes w' = probes w
       \<and> (\<forall>mainErr r'. out = Returns (mainErr, r') \<longrightarrow> (r' = r \<or> r' = getDownloadManager r))"
proof -
  have p: "probes w' = probes w"
    using assms
    by (auto simp: lockedDownload_fn_def Let_def
        split: outcome.splits bool.splits prod.splits sum.splits option.splits
        dest!: snd_eqD simp: probes_os)
  have "\<forall>mainErr r'. out = Returns (mainErr, r') \<longrightarrow> (r' = r \<or> r' = getDownloadManager r)"
    using assms
    by (auto simp: lockedDownload_fn_def Let_def
        split: outcome.splits bool.splits prod.splits sum.splits option.splits)
  with p show ?thesis by simp
qed


lemma execOnFileLock_cases:
  assumes "execOnFileLock env lockPath fn w = Some (out, w')"
  shows "(\<exists>e. out = Returns (Some e, None) \<and> probes w' = probes w)
       \<or> (\<exists>w2 o3 w3. fn w2 = (o3, w3) \<and> probes w2 = probes w \<and> probes w' = probes w3
              \<and> files w' = files w3
              \<and> out = (case o3 of Panics e \<Rightarrow> Panics e | Returns a \<Rightarrow> Returns (None, Some a)))"
proof (cases "os_OpenFile env lockPath w")
  case (Pair res w1)
  have p1: "probes w1 = probes w"
    using probes_os_OpenFile[of env lockPath w] Pair by simp
  show ?thesis
  proof (cases res)
    case (Inl e)
    with Pair assms p1 show ?thesis by (auto simp: execOnFileLock_def)
  next
    case (Inr f)
    show ?thesis
    proof (cases "flock_loop (flock_script env lockPath) 0")
      case None
      with Pair Inr assms show ?thesis by (simp add: execOnFileLock_def)
    next
      case (Some nr)
      obtain n lr where nr: "nr = (n, lr)" by (cases nr)
      show ?thesis
      proof (cases lr)
        case (Some e)
        let ?w2 = "w1\<lparr>syscalls := syscalls w1 @ replicate (Suc n) (SysFlockEx lockPath)\<rparr>"
        have "execOnFileLock env lockPath fn w =
            Some (Returns (Some (Wrapf ''while locking'' (OSError e)), None), snd (file_Close env f ?w2))"
          using Pair Inr \<open>flock_loop (flock_script env lockPath) 0 = Some nr\<close> nr Some
          by (auto simp: execOnFileLock_def Let_def split: prod.splits)
        with assms p1 probes_file_Close[of env f ?w2] show ?thesis by auto
      next
        case None
        let ?w2 = "w1\<lparr>syscalls := syscalls w1 @ replicate (Suc n) (SysFlockEx lockPath),
                       flocks := insert f (flocks w1), files := interfere env (files w1)\<rparr>"
        obtain o3 w3 where fn: "fn ?w2 = (o3, w3)" by (cases "fn ?w2")
        have "execOnFileLock env lockPath fn w =
            Some (case o3 of Panics e \<Rightarrow> Panics e | Returns a \<Rightarrow> Returns (None, Some a),
                  snd (file_Close env f w3))"
          using Pair Inr \<open>flock_loop (flock_script env lockPath) 0 = Some nr\<close> nr None fn
          by (auto simp: execOnFileLock_def deferred_unlock_None split: prod.splits outcome.splits)
        with assms have o: "out = (case o3 of Panics e \<Rightarrow> Panics e | Returns a \<Rightarrow> Returns (None, Some a))"
          and w: "w' = snd (file_Close env f w3)"
          by simp_all
        have "probes ?w2 = probes w" using p1 by simp
        with fn o w files_file_Close[of env f w3] probes_file_Close[of env f w3] show ?thesis
          by blast
      qed
    qed
  qed
qed

lemma lockedDownload_frame:
  assumes "lockedDownload env ctxDone url filePath forceDownload r w = Some (out, r', w')"
  shows "probes w' = probes w \<and> (r' = r \<or> r' = getDownloadManager r)"
proof (cases "fileExists env w filePath")
  case (Panics e)
  with assms show ?thesis by (simp add: lockedDownload_def)
next
  case (Returns ex)
  show ?thesis
  proof (cases "ex \<and> \<not> forceDownload")
    case True
    with assms Returns show ?thesis by (simp add: lockedDownload_def)
  next
    case False
    obtain re wa where rm: "(if ex then os_Remove env filePath w else (None, w)) = (re, wa)"
      by (cases "if ex then os_Remove env filePath w else (None, w)")
    have pa: "probes wa = probes w"
      using rm probes_os_Remove[of env filePath w] by (auto split: if_splits)
    obtain me wb where mk: "os_MkdirAll env (path_Dir filePath) wa = (me, wb)"
      by (cases "os_MkdirAll env (path_Dir filePath) wa")
    have pb: "probes wb = probes w"
      using mk probes_os_MkdirAll[of env "path_Dir filePath" wa] pa by simp
    show ?thesis
    proof (cases "re \<noteq> None \<or> ctxDone \<or> me \<noteq> None")
      case True
      with assms Returns False rm mk pa pb show ?thesis
        by (auto simp: lockedDownload_def split: if_splits option.splits)
    next
      case F2: False
      let ?lp = "filePath @ ''.lock''"
      let ?fn = "lockedDownload_fn env url filePath ?lp r"
      from assms Returns False rm mk F2 obtain xo where
        lk: "execOnFileLock env ?lp ?fn wb = Some (xo, w')"
        and res: "(\<exists>e. xo = Panics e \<and> r' = r)
          \<or> (\<exists>errLock. xo = Returns (errLock, None) \<and> r' = r)
          \<or> (\<exists>errLock mainErr. xo = Returns (errLock, Some (mainErr, r')))"
        by (auto simp: lockedDownload_def Let_def split: if_splits option.splits prod.splits outcome.splits)
      from execOnFileLock_cases[OF lk] show ?thesis
      proof (elim disjE exE conjE)
        fix e assume "xo = Returns (Some e, None)" "probes w' = probes wb"
        with res pb show ?thesis by auto
      next
        fix w2 o3 w3
        assume a: "?fn w2 = (o3, w3)" "probes w2 = probes wb" "probes w' = probes w3"
          "xo = (case o3 of Panics e \<Rightarrow> Panics e | Returns a \<Rightarrow> Returns (None, Some a))"
        from lockedDownload_fn_frame[OF a(1)] have
          f: "probes w3 = probes w2"
          "\<forall>mainErr r'. o3 = Returns (mainErr, r') \<longrightarrow> r' = r \<or> r' = getDownloadManager r"
          by simp_all
        from f(1) a(2,3) pb have "probes w' = probes w" by simp
        moreover have "r' = r \<or> r' = getDownloadManager r"
          using res a(4) f(2) by (cases o3) auto
        ultimately show ?thesis by simp
      qed
    qed
  qed
qed

lemma lockedDownload_same_repo:
  "lockedDownload env ctxDone url filePath forceDownload r w = Some (out, r', w') \<Longrightarrow> same_repo r r'"
  using lockedDownload_frame[of env ctxDone url filePath forceDownload r w out r' w']
    same_repo_refl[of r] same_repo_getDownloadManager[of r] by auto

section \<open>Properties of \<open>DownloadInfo\<close>\<close>

lemma repoCacheDir_frame:
  "repoCacheDir env r w = (res, w') \<Longrightarrow>
     probes w' = probes w
     \<and> (\<forall>dir. res = Inr dir \<longrightarrow> dir = path_Join [cacheDir r, flatFolderName r])"
  using probes_os_MkdirAll[of env "path_Join [cacheDir r, flatFolderName r]" w]
  by (auto simp: repoCacheDir_def Let_def split: prod.splits option.splits)

lemma DownloadInfo_known:
  "info r \<noteq> None \<Longrightarrow> DownloadInfo env False r w = Some (Returns None, r, w)"
  by (simp add: DownloadInfo_def)

lemma DownloadInfo_frame:
  assumes "DownloadInfo env forceDownload r w = Some (out, r', w')"
  shows "probes w' = probes w
       \<and> ID r' = ID r \<and> hfEndpoint r' = hfEndpoint r \<and> repoType r' = repoType r
       \<and> revision r' = revision r \<and> cacheDir r' = cacheDir r
       \<and> (downloadManager r \<noteq> None \<longrightarrow> downloadManager r' = downloadManager r)
       \<and> (out \<noteq> Returns None \<longrightarrow> info r' = info r)
       \<and> (out = Returns None \<longrightarrow> info r' \<noteq> None)
       \<and> (info r' \<noteq> info r \<longrightarrow>
            (\<exists>infoJson newInfo.
               os_ReadFile env w'
                 (path_Join [path_Join [path_Join [cacheDir r, flatFolderName r], ''info''], revision r])
                 = Inr infoJson
               \<and> json_decode env infoJson = Inr newInfo \<and> info r' = Some newInfo))"
proof (cases "info r \<noteq> None \<and> \<not> forceDownload")
  case True
  with assms show ?thesis by (auto simp: DownloadInfo_def)
next
  case False
  obtain cres w1 where rc: "repoCacheDir env r w = (cres, w1)"
    by (cases "repoCacheDir env r w")
  note rcf = repoCacheDir_frame[OF rc]
  show ?thesis
  proof (cases cres)
    case (Inl err)
    with assms False rc rcf show ?thesis by (auto simp: DownloadInfo_def)
  next
    case (Inr dir)
    with rcf have dir: "dir = path_Join [cacheDir r, flatFolderName r]" by simp
    let ?infoDir = "path_Join [dir, ''info'']"
    let ?path = "path_Join [?infoDir, revision r]"
    obtain me w2 where mk: "os_MkdirAll env ?infoDir w1 = (me, w2)"
      by (cases "os_MkdirAll env ?infoDir w1")
    have p2: "probes w2 = probes w"
      using mk probes_os_MkdirAll[of env ?infoDir w1] rcf by simp
    show ?thesis
    proof (cases me)
      case (Some e)
      with assms False rc Inr mk p2 show ?thesis by (auto simp: DownloadInfo_def Let_def)
    next
      case None
      let ?X = "if \<not> files_Exists env w2 ?path \<or> forceDownload
                then lockedDownload env False (infoURL r) ?path forceDownload r w2
                else Some (Returns None, r, w2)"
      from assms False rc Inr mk None obtain o3 r3 w3 where X: "?X = Some (o3, r3, w3)"
        by (auto simp: DownloadInfo_def Let_def split: option.splits)
      have f3: "probes w3 = probes w2 \<and> (r3 = r \<or> r3 = getDownloadManager r)"
        using X lockedDownload_frame[of env False "infoURL r" ?path forceDownload r w2 o3 r3 w3]
        by (auto split: if_splits)
      then have r3: "ID r3 = ID r \<and> hfEndpoint r3 = hfEndpoint r \<and> repoType r3 = repoType r
          \<and> revision r3 = revision r \<and> cacheDir r3 = cacheDir r \<and> info r3 = info r
          \<and> (downloadManager r \<noteq> None \<longrightarrow> downloadManager r3 = downloadManager r)"
        by (auto simp: getDownloadManager_def)
      have di: "DownloadInfo env forceDownload r w =
          (case o3 of
             Panics e \<Rightarrow> Some (Panics e, r3, w3)
           | Returns (Some err) \<Rightarrow>
               Some (Returns (Some (Wrapf ''failed to download repository info'' err)), r3, w3)
           | Returns None \<Rightarrow>
               (case os_ReadFile env w3 ?path of
                  Inl e \<Rightarrow> Some (Returns (Some (Wrapf ''failed to read info for model from disk''
                                                   (OSError e))), r3, w3)
                | Inr infoJson \<Rightarrow>
                    (case json_decode env infoJson of
                       Inl err \<Rightarrow> Some (Returns (Some (Wrapf ''failed to parse info for model'' err)),
                                          r3, w3)
                     | Inr newInfo \<Rightarrow> Some (Returns None, r3\<lparr>info := Some newInfo\<rparr>, w3))))"
      proof -
        have c: "(if info r \<noteq> None \<and> \<not> forceDownload then a else b) = b" for a b :: "'z"
          using False by auto
        show ?thesis
          unfolding DownloadInfo_def c rc Inr sum.case prod.case Let_def mk None option.case X
          by (rule refl)
      qed
      show ?thesis
      proof (cases o3)
        case (Panics e)
        with di assms f3 r3 p2 show ?thesis by auto
      next
        case (Returns me3)
        show ?thesis
        proof (cases me3)
          case (Some err)
          with di assms Returns f3 r3 p2 show ?thesis by auto
        next
          case None3: None
          show ?thesis
          proof (cases "os_ReadFile env w3 ?path")
            case (Inl e)
            with di assms Returns None3 f3 r3 p2 show ?thesis by auto
          next
            case R: (Inr infoJson)
            show ?thesis
            proof (cases "json_decode env infoJson")
              case (Inl err)
              with di assms Returns None3 R f3 r3 p2 show ?thesis by auto
            next
              case J: (Inr newInfo)
              with di assms Returns None3 R have
                "out = Returns None" "r' = r3\<lparr>info := Some newInfo\<rparr>" "w' = w3"
                by auto
              with R J f3 r3 p2 dir show ?thesis by auto
            qed
          qed
        qed
      qed
    qed
  qed
qed




section \<open>Properties of the batch download\<close>

lemma readCommitHashForRevision_known:
  "info r = Some i \<Longrightarrow>
     readCommitHashForRevision env r w = Some (Returns (Inr (CommitHash i)), r, w)"
  by (simp add: readCommitHashForRevision_def DownloadInfo_known)

lemma FileURL_known:
  "info r = Some i \<Longrightarrow> \<exists>u. FileURL env r name w = Some (Returns (Inr u), r, w)"
  by (simp add: FileURL_def readCommitHashForRevision_known)

lemma flatFolderName_cong: "repoType r' = repoType r \<Longrightarrow> ID r' = ID r \<Longrightarrow> flatFolderName r' = flatFolderName r"
  by (simp add: flatFolderName_def)

lemma snapshots_path_same: "same_repo r r' \<Longrightarrow> snapshots_path r' = snapshots_path r"
  using flatFolderName_cong[of r' r] by (simp add: same_repo_def snapshots_path_def)

lemma readCommitHashForRevision_ok:
  assumes "readCommitHashForRevision env r w = Some (Returns (Inr commitHash), r1, w1)"
  shows "\<exists>i. DownloadInfo env False r w = Some (Returns None, r1, w1)
           \<and> info r1 = Some i \<and> commitHash = CommitHash i"
proof (cases "DownloadInfo env False r w")
  case None
  with assms show ?thesis by (simp add: readCommitHashForRevision_def)
next
  case (Some x)
  obtain o1 ra wa where x: "x = (o1, ra, wa)" by (cases x)
  show ?thesis
  proof (cases o1)
    case (Panics e)
    with assms Some x show ?thesis by (simp add: readCommitHashForRevision_def)
  next
    case (Returns me)
    show ?thesis
    proof (cases me)
      case (Some err)
      with assms \<open>DownloadInfo env False r w = Some x\<close> x Returns show ?thesis
        by (simp add: readCommitHashForRevision_def)
    next
      case None
      with assms \<open>DownloadInfo env False r w = Some x\<close> x Returns show ?thesis
        by (cases "info ra") (simp_all add: readCommitHashForRevision_def)
    qed
  qed
qed

lemma repoSnapshotsDir_ok:
  assumes "repoSnapshotsDir env r w = Some (Returns (Inr sd), r2, w2)"
  shows "sd = snapshots_path r2 \<and> info r2 \<noteq> None \<and> probes w2 = probes w
       \<and> (downloadManager r \<noteq> None \<longrightarrow> downloadManager r2 = downloadManager r)"
proof -
  obtain cres w1 where rc: "repoCacheDir env r w = (cres, w1)"
    by (cases "repoCacheDir env r w")
  note rcf = repoCacheDir_frame[OF rc]
  from assms rc obtain dir where dir: "cres = Inr dir"
    by (cases cres) (simp_all add: repoSnapshotsDir_def)
  with rcf have dir_eq: "dir = path_Join [cacheDir r, flatFolderName r]" by simp
  have unf: "repoSnapshotsDir env r w =
      (case readCommitHashForRevision env r w1 of
             None \<Rightarrow> None
           | Some (Panics e, r2, w2) \<Rightarrow> Some (Panics e, r2, w2)
           | Some (Returns (Inl err), r2, w2) \<Rightarrow> Some (Returns (Inl err), r2, w2)
           | Some (Returns (Inr commitHash), r2, w2) \<Rightarrow>
               (let snapshotsDir = path_Join [dir, ''snapshots'', commitHash]
                in case os_MkdirAll env snapshotsDir w2 of
                     (Some e, w3) \<Rightarrow>
                       Some (Returns (Inl (Wrapf ''while creating snapshots directory'' (OSError e))),
                             r2, w3)
                   | (None, w3) \<Rightarrow> Some (Returns (Inr snapshotsDir), r2, w3)))"
    unfolding repoSnapshotsDir_def rc dir by simp
  obtain x where rx: "readCommitHashForRevision env r w1 = Some x"
    using assms unf by (cases "readCommitHashForRevision env r w1") simp_all
  obtain o1 r1 w1' where x: "x = (o1, r1, w1')" by (cases x)
  obtain res1 where o1: "o1 = Returns res1"
    using assms unf rx x by (cases o1) simp_all
  obtain commitHash where res1: "res1 = Inr commitHash"
    using assms unf rx x o1 by (cases res1) simp_all
  have rh: "readCommitHashForRevision env r w1 = Some (Returns (Inr commitHash), r1, w1')"
    using rx x o1 res1 by simp
  from readCommitHashForRevision_ok[OF rh] obtain i where
    di: "DownloadInfo env False r w1 = Some (Returns None, r1, w1')"
    and i: "info r1 = Some i" "commitHash = CommitHash i"
    by blast
  note df = DownloadInfo_frame[OF di]
  let ?sd = "path_Join [dir, ''snapshots'', commitHash]"
  obtain me w3 where mk: "os_MkdirAll env ?sd w1' = (me, w3)"
    by (cases "os_MkdirAll env ?sd w1'")
  have res: "sd = ?sd \<and> r2 = r1 \<and> w2 = w3"
    using assms unf rh mk by (cases me) (simp_all add: Let_def)
  have "flatFolderName r1 = flatFolderName r"
    using df flatFolderName_cong[of r1 r] by simp
  with res i df dir_eq have "sd = snapshots_path r2"
    by (simp add: snapshots_path_def)
  moreover have "probes w2 = probes w"
    using res mk probes_os_MkdirAll[of env ?sd w1'] df rcf by simp
  ultimately show ?thesis using res i(1) df by simp
qed

lemma DownloadFiles_loop_paths:
  assumes "DownloadFiles_loop env sd idx names paths started r w
             = Some (Returns (Inr (paths', started')), r', w')"
    and "info r \<noteq> None"
    and "idx + length names \<le> length paths"
  shows "r' = r \<and> probes w' = probes w \<and> length paths' = length paths
       \<and> (\<forall>j < length names.
             paths' ! (idx + j) = path_Join [sd, cleanRelativeFilePath (Separator env) (names ! j)])
       \<and> (\<forall>j < idx. paths' ! j = paths ! j)"
  using assms
proof (induction names arbitrary: idx paths started w)
  case Nil
  then show ?case by simp
next
  case (Cons name names)
  from Cons.prems(2) obtain i where i: "info r = Some i" by auto
  from FileURL_known[OF i, of env name w] obtain u where
    fu: "FileURL env r name w = Some (Returns (Inr u), r, w)" by blast
  let ?rel = "cleanRelativeFilePath (Separator env) name"
  let ?snap = "path_Join [sd, ?rel]"
  let ?paths = "paths[idx := ?snap]"
  from Cons.prems(1) fu have nd: "?rel \<noteq> ''.''"
    by (auto simp: Let_def)
  from Cons.prems(1) fu nd obtain ex where ex: "fileExists env w ?snap = Returns ex"
    by (cases "fileExists env w ?snap") (auto simp: Let_def)
  have idx: "idx < length paths" using Cons.prems(3) by simp
  have step: "\<exists>st2 w2. probes w2 = probes w
      \<and> DownloadFiles_loop env sd (Suc idx) names ?paths st2 r w2
           = Some (Returns (Inr (paths', started')), r', w')"
  proof (cases ex)
    case True
    with Cons.prems(1) fu nd ex show ?thesis
      by (auto simp: Let_def)
  next
    case False
    obtain me w2 where mk: "os_MkdirAll env (fst (path_Split ?snap)) w = (me, w2)"
      by (cases "os_MkdirAll env (fst (path_Split ?snap)) w")
    with Cons.prems(1) fu nd ex False have "me = None"
      by (cases me) (auto simp: Let_def)
    with Cons.prems(1) fu nd ex False mk probes_os_MkdirAll[of env "fst (path_Split ?snap)" w]
    show ?thesis
      by (auto simp: Let_def)
  qed
  then obtain st2 w2 where p2: "probes w2 = probes w"
    and rec: "DownloadFiles_loop env sd (Suc idx) names ?paths st2 r w2
           = Some (Returns (Inr (paths', started')), r', w')"
    by blast
  have len: "Suc idx + length names \<le> length ?paths"
    using Cons.prems(3) by simp
  from Cons.IH[OF rec Cons.prems(2) len] have ih:
    "r' = r" "probes w' = probes w2" "length paths' = length ?paths"
    "\<forall>j < length names.
        paths' ! (Suc idx + j) = path_Join [sd, cleanRelativeFilePath (Separator env) (names ! j)]"
    "\<forall>j < Suc idx. paths' ! j = ?paths ! j"
    by simp_all
  have here: "paths' ! idx = ?snap"
    using ih(5) idx by simp
  have elems: "\<forall>j < length (name # names).
      paths' ! (idx + j) = path_Join [sd, cleanRelativeFilePath (Separator env) ((name # names) ! j)]"
  proof (intro allI impI)
    fix j assume "j < length (name # names)"
    show "paths' ! (idx + j) = path_Join [sd, cleanRelativeFilePath (Separator env) ((name # names) ! j)]"
    proof (cases j)
      case 0
      with here show ?thesis by simp
    next
      case (Suc k)
      with \<open>j < length (name # names)\<close> ih(4) show ?thesis by simp
    qed
  qed
  have before: "\<forall>j < idx. paths' ! j = paths ! j"
    using ih(5) by simp
  from ih(1,2,3) p2 elems before show ?case by simp
qed

lemma firstError_reportErrorFn: "firstError (reportErrorFn err b) \<noteq> None"
  by (simp add: reportErrorFn_def)

lemma createSymLink_probes: "probes (snd (createSymLink env dst src w)) = probes w"
proof -
  obtain re w1 where rm: "os_Remove env dst w = (re, w1)"
    by (cases "os_Remove env dst w")
  have p1: "probes w1 = probes w"
    using rm probes_os_Remove[of env dst w] by simp
  have "\<And>l. probes (snd (os_Symlink env l src dst w1)) = probes w"
    using p1 by (simp add: probes_os_Symlink)
  then show ?thesis
    using rm p1
    by (auto simp: createSymLink_def Let_def split: option.splits prod.splits dest!: snd_eqD)
qed

lemma link_snapshot_frame:
  assumes "link_snapshot env wk blobPath b r w = (b', r', w')"
  shows "r' = r \<and> probes w' = probes w \<and> (firstError b \<noteq> None \<longrightarrow> firstError b' \<noteq> None)"
proof -
  obtain ce w1 where c: "createSymLink env (snapshotPath wk) blobPath w = (ce, w1)"
    by (cases "createSymLink env (snapshotPath wk) blobPath w")
  have "probes w1 = probes w"
    using c createSymLink_probes[of env "snapshotPath wk" blobPath w] by simp
  with assms c show ?thesis
    by (cases ce) (auto simp: link_snapshot_def reportErrorFn_def)
qed

lemma download_worker_bad_probe:
  assumes "bad_probe env (fileURL wk)"
  shows "\<exists>err. download_worker env repoDir wk b r w
           = Some (Returns (reportErrorFn err b, r, w\<lparr>probes := probes w @ [fileURL wk]\<rparr>))"
proof -
  from assms obtain header contentLength where
    h: "head_response env (fileURL wk) = Inr (header, contentLength)"
    and bad: "ETag (extractFileMetadata env header (fileURL wk) contentLength) = []
          \<or> Location (extractFileMetadata env header (fileURL wk) contentLength) \<noteq> fileURL wk"
    by (auto simp: bad_probe_def split: sum.splits)
  show ?thesis
  proof (cases "ETag (extractFileMetadata env header (fileURL wk) contentLength) = []")
    case True
    with h show ?thesis
      by (auto simp: download_worker_def Manager_FetchHeader_def Let_def)
  next
    case False
    with bad h show ?thesis
      by (auto simp: download_worker_def Manager_FetchHeader_def Let_def)
  qed
qed

lemma download_worker_frame:
  assumes "download_worker env repoDir wk b r w = Some (Returns (b', r', w'))"
  shows "probes w' = probes w @ [fileURL wk] \<and> same_repo r r'
       \<and> (firstError b \<noteq> None \<longrightarrow> firstError b' \<noteq> None)
       \<and> (bad_probe env (fileURL wk) \<longrightarrow> firstError b' \<noteq> None)"
proof (cases "bad_probe env (fileURL wk)")
  case True
  from download_worker_bad_probe[OF True, of repoDir b r w] assms
  show ?thesis
    by (auto simp: same_repo_refl reportErrorFn_def)
next
  case False
  let ?w1 = "w\<lparr>probes := probes w @ [fileURL wk]\<rparr>"
  show ?thesis
  proof (cases "head_response env (fileURL wk)")
    case (Inl err)
    with assms False show ?thesis
      by (auto simp: download_worker_def Manager_FetchHeader_def same_repo_refl
          reportErrorFn_def)
  next
    case (Inr hc)
    obtain header contentLength where hc: "hc = (header, contentLength)" by (cases hc)
    let ?md = "extractFileMetadata env header (fileURL wk) contentLength"
    from False Inr hc have good: "ETag ?md \<noteq> []" "Location ?md = fileURL wk"
      by (auto simp: bad_probe_def)
    let ?blob = "path_Join [repoDir, ''blobs'', ETag ?md]"
    let ?b1 = "b\<lparr>requireDownload := Suc (requireDownload b)\<rparr>"
    have unf: "download_worker env repoDir wk b r w =
        (case fileExists env ?w1 ?blob of
           Panics e \<Rightarrow> Some (Panics e)
         | Returns True \<Rightarrow> Some (Returns (link_snapshot env wk ?blob b r ?w1))
         | Returns False \<Rightarrow>
             (case lockedDownload env (cancelled ?b1) (fileURL wk) ?blob False r ?w1 of
                None \<Rightarrow> None
              | Some (Panics e, r2, w2) \<Rightarrow> Some (Panics e)
              | Some (Returns (Some err), r2, w2) \<Rightarrow> Some (Returns (reportErrorFn err ?b1, r2, w2))
              | Some (Returns None, r2, w2) \<Rightarrow>
                  Some (Returns (link_snapshot env wk ?blob
                           (?b1\<lparr>numDownloadedFiles := Suc (numDownloadedFiles ?b1)\<rparr>) r2 w2))))"
      unfolding download_worker_def Manager_FetchHeader_def Let_def
      using Inr hc good by simp
    show ?thesis
    proof (cases "fileExists env ?w1 ?blob")
      case (Panics e)
      with unf assms show ?thesis by simp
    next
      case (Returns ex)
      show ?thesis
      proof (cases ex)
        case True
        with unf assms Returns have "link_snapshot env wk ?blob b r ?w1 = (b', r', w')"
          by simp
        from link_snapshot_frame[OF this] False show ?thesis
          by (simp add: same_repo_refl)
      next
        case F: False
        obtain x where lx: "lockedDownload env (cancelled ?b1) (fileURL wk) ?blob False r ?w1 = Some x"
          using unf assms Returns F
          by (cases "lockedDownload env (cancelled ?b1) (fileURL wk) ?blob False r ?w1") simp_all
        obtain o2 r2 w2 where x: "x = (o2, r2, w2)" by (cases x)
        from lx x have l2: "lockedDownload env (cancelled ?b1) (fileURL wk) ?blob False r ?w1
            = Some (o2, r2, w2)" by simp
        from lockedDownload_frame[OF l2] lockedDownload_same_repo[OF l2]
        have f2: "probes w2 = probes w @ [fileURL wk]" "same_repo r r2" by simp_all
        obtain me where o2: "o2 = Returns me"
          using unf assms Returns F l2 by (cases o2) simp_all
        show ?thesis
        proof (cases me)
          case (Some err)
          with unf assms Returns F l2 o2 f2 \<open>\<not> bad_probe env (fileURL wk)\<close> show ?thesis
            by (auto simp: reportErrorFn_def)
        next
          case None
          with unf assms Returns F l2 o2 have
            "link_snapshot env wk ?blob (?b1\<lparr>numDownloadedFiles := Suc (numDownloadedFiles ?b1)\<rparr>)
               r2 w2 = (b', r', w')"
            by simp
          from link_snapshot_frame[OF this] f2 \<open>\<not> bad_probe env (fileURL wk)\<close> show ?thesis
            by simp
        qed
      qed
    qed
  qed
qed

lemma run_workers_frame:
  assumes "run_workers env repoDir wks b r w = Some (Returns (b', r', w'))"
  shows "probes w' = probes w @ map fileURL wks \<and> same_repo r r'
       \<and> (firstError b \<noteq> None \<or> (\<exists>wk \<in> set wks. bad_probe env (fileURL wk))
            \<longrightarrow> firstError b' \<noteq> None)"
  using assms
proof (induction wks arbitrary: b r w)
  case Nil
  then show ?case by (simp add: same_repo_refl)
next
  case (Cons wk wks)
  from Cons.prems obtain x where dx: "download_worker env repoDir wk b r w = Some x"
    by (cases "download_worker env repoDir wk b r w") simp_all
  from Cons.prems dx obtain b1 r1 w1 where x: "x = Returns (b1, r1, w1)"
    by (cases x) auto
  from Cons.prems dx x have rec: "run_workers env repoDir wks b1 r1 w1 = Some (Returns (b', r', w'))"
    by simp
  from dx x have "download_worker env repoDir wk b r w = Some (Returns (b1, r1, w1))" by simp
  note f1 = download_worker_frame[OF this]
  note ih = Cons.IH[OF rec]
  from f1 ih same_repo_trans[of r r1 r'] show ?case by auto
qed

lemma DownloadFiles_returns:
  assumes "DownloadFiles env r repoFiles w = Some (Returns res, r', w')" and "repoFiles \<noteq> []"
  shows "(\<exists>err. res = Inl err)
       \<or> (\<exists>repoDir w1 sd r2 w2 paths started r3 w3 b.
             repoCacheDir env (getDownloadManager r) w = (Inr repoDir, w1)
             \<and> repoSnapshotsDir env (getDownloadManager r) w1 = Some (Returns (Inr sd), r2, w2)
             \<and> DownloadFiles_loop env sd 0 repoFiles (replicate (length repoFiles) []) [] r2 w2
                 = Some (Returns (Inr (paths, started)), r3, w3)
             \<and> run_workers env repoDir (run_order (sched env) started)
                   \<lparr>firstError = None, cancelled = False, requireDownload = 0,
                    numDownloadedFiles = 0\<rparr> r3 w3
                 = Some (Returns (b, r', w'))
             \<and> res = (case firstError b of Some err \<Rightarrow> Inl err | None \<Rightarrow> Inr paths))"
proof -
  let ?r0 = "getDownloadManager r"
  let ?b0 = "\<lparr>firstError = None, cancelled = False, requireDownload = 0, numDownloadedFiles = 0\<rparr>"
  have ne: "length repoFiles \<noteq> 0" using assms(2) by simp
  obtain cres w1 where rc: "repoCacheDir env ?r0 w = (cres, w1)"
    by (cases "repoCacheDir env ?r0 w")
  show ?thesis
  proof (cases cres)
    case (Inl err)
    with assms(1) ne rc show ?thesis by (auto simp: DownloadFiles_def Let_def)
  next
    case (Inr repoDir)
    have unf1: "DownloadFiles env r repoFiles w =
        (case repoSnapshotsDir env ?r0 w1 of
           None \<Rightarrow> None
         | Some (Panics e, r2, w2) \<Rightarrow> Some (Panics e, r2, w2)
         | Some (Returns (Inl err), r2, w2) \<Rightarrow> Some (Returns (Inl err), r2, w2)
         | Some (Returns (Inr snapshotDir), r2, w2) \<Rightarrow>
             (case DownloadFiles_loop env snapshotDir 0 repoFiles
                     (replicate (length repoFiles) []) [] r2 w2 of
                None \<Rightarrow> None
              | Some (Panics e, r3, w3) \<Rightarrow> Some (Panics e, r3, w3)
              | Some (Returns (Inl err), r3, w3) \<Rightarrow> Some (Returns (Inl err), r3, w3)
              | Some (Returns (Inr (downloadedPaths, started)), r3, w3) \<Rightarrow>
                  (case run_workers env repoDir (run_order (sched env) started) ?b0 r3 w3 of
                     None \<Rightarrow> None
                   | Some (Panics e) \<Rightarrow> Some (Panics e, r3, w3)
                   | Some (Returns (b, r4, w4)) \<Rightarrow>
                       (case firstError b of
                          Some err \<Rightarrow> Some (Returns (Inl err), r4, w4)
                        | None \<Rightarrow> Some (Returns (Inr downloadedPaths), r4, w4)))))"
      unfolding DownloadFiles_def Let_def rc Inr using ne by simp
    obtain x where sx: "repoSnapshotsDir env ?r0 w1 = Some x"
      using assms(1) unf1 by (cases "repoSnapshotsDir env ?r0 w1") simp_all
    obtain o2 r2 w2 where x: "x = (o2, r2, w2)" by (cases x)
    obtain sres where o2: "o2 = Returns sres"
      using assms(1) unf1 sx x by (cases o2) simp_all
    show ?thesis
    proof (cases sres)
      case (Inl err)
      with assms(1) unf1 sx x o2 show ?thesis by auto
    next
      case S: (Inr sd)
      let ?loop = "DownloadFiles_loop env sd 0 repoFiles (replicate (length repoFiles) []) [] r2 w2"
      obtain y where ly: "?loop = Some y"
        using assms(1) unf1 sx x o2 S by (cases ?loop) simp_all
      obtain o3 r3 w3 where y: "y = (o3, r3, w3)" by (cases y)
      obtain lres where o3: "o3 = Returns lres"
        using assms(1) unf1 sx x o2 S ly y by (cases o3) simp_all
      show ?thesis
      proof (cases lres)
        case (Inl err)
        with assms(1) unf1 sx x o2 S ly y o3 show ?thesis by auto
      next
        case L: (Inr ps)
        obtain paths started where ps: "ps = (paths, started)" by (cases ps)
        let ?run = "run_workers env repoDir (run_order (sched env) started) ?b0 r3 w3"
        obtain z where rz: "?run = Some z"
          using assms(1) unf1 sx x o2 S ly y o3 L ps by (cases ?run) simp_all
        obtain brw where z: "z = Returns brw"
          using assms(1) unf1 sx x o2 S ly y o3 L ps rz by (cases z) simp_all
        obtain b r4 w4 where brw: "brw = (b, r4, w4)" by (cases brw)
        have fin: "r' = r4 \<and> w' = w4
            \<and> res = (case firstError b of Some err \<Rightarrow> Inl err | None \<Rightarrow> Inr paths)"
          using assms(1) unf1 sx x o2 S ly y o3 L ps rz z brw
          by (cases "firstError b") simp_all
        from rc Inr sx x o2 S ly y o3 L ps rz z brw fin show ?thesis
          by (intro disjI2) (simp only: exI, blast)
      qed
    qed
  qed
qed

text \<open>
  Claim C7. When \<open>DownloadFiles\<close> succeeds it returns as many paths as names were
  requested, and the path at index \<open>i\<close> is the snapshot path of the name at index \<open>i\<close>:
  the sanitised name joined to the snapshots directory of the repository. This holds for
  every order \<open>sched\<close> in which the download goroutines run.
\<close>

theorem DownloadFiles_paths_in_order:
  assumes "DownloadFiles env r repoFiles w = Some (Returns (Inr paths), r', w')"
  shows "length paths = length repoFiles
       \<and> (\<forall>i < length repoFiles.
             paths ! i = path_Join [snapshots_path r',
                                    cleanRelativeFilePath (Separator env) (repoFiles ! i)])"
proof (cases "repoFiles = []")
  case True
  with assms show ?thesis by (simp add: DownloadFiles_def)
next
  case False
  from DownloadFiles_returns[OF assms False] obtain repoDir w1 sd r2 w2 ps started r3 w3 b where
    sn: "repoSnapshotsDir env (getDownloadManager r) w1 = Some (Returns (Inr sd), r2, w2)"
    and lp: "DownloadFiles_loop env sd 0 repoFiles (replicate (length repoFiles) []) [] r2 w2
                 = Some (Returns (Inr (ps, started)), r3, w3)"
    and rn: "run_workers env repoDir (run_order (sched env) started)
                   \<lparr>firstError = None, cancelled = False, requireDownload = 0,
                    numDownloadedFiles = 0\<rparr> r3 w3
                 = Some (Returns (b, r', w'))"
    and res: "Inr paths = (case firstError b of Some err \<Rightarrow> Inl err | None \<Rightarrow> Inr ps)"
    by auto
  from res have pp: "paths = ps" by (cases "firstError b") simp_all
  from repoSnapshotsDir_ok[OF sn] have sd: "sd = snapshots_path r2" and i2: "info r2 \<noteq> None"
    by simp_all
  from DownloadFiles_loop_paths[OF lp i2] have
    l: "r3 = r2" "length ps = length repoFiles"
    "\<forall>j < length repoFiles.
        ps ! (0 + j) = path_Join [sd, cleanRelativeFilePath (Separator env) (repoFiles ! j)]"
    by simp_all
  from run_workers_frame[OF rn] have "same_repo r3 r'" by simp
  with l(1) have "snapshots_path r' = snapshots_path r2"
    by (simp add: snapshots_path_same)
  with sd l pp show ?thesis by simp
qed






section \<open>The batch download at concrete inputs\<close>










lemma ex_batch_ok:
  "map_option fst (DownloadFiles reverse_env resolved_repo [''a.txt'', ''b.txt''] empty_world)
     = Some (Returns (Inr [''/c/models--a--b/snapshots/abc123/a.txt'',
                           ''/c/models--a--b/snapshots/abc123/b.txt'']))"
  by code_simp

lemma ex_batch_ok_transfers:
  "transfers (snd (snd (the (DownloadFiles reverse_env resolved_repo [''a.txt'', ''b.txt''] empty_world))))
     = [(''https://hf.co/a/b/resolve/abc123/b.txt'', ''/c/models--a--b/blobs/bbb.downloading''),
        (''https://hf.co/a/b/resolve/abc123/a.txt'', ''/c/models--a--b/blobs/aaa.downloading'')]"
  by code_simp

theorem DownloadFiles_paths_in_order_witness:
  "\<exists>r' w'. DownloadFiles reverse_env resolved_repo [''a.txt'', ''b.txt''] empty_world
             = Some (Returns (Inr [''/c/models--a--b/snapshots/abc123/a.txt'',
                                   ''/c/models--a--b/snapshots/abc123/b.txt'']), r', w')
          \<and> transfers w'
             = [(''https://hf.co/a/b/resolve/abc123/b.txt'', ''/c/models--a--b/blobs/bbb.downloading''),
                (''https://hf.co/a/b/resolve/abc123/a.txt'', ''/c/models--a--b/blobs/aaa.downloading'')]
          \<and> path_Join [snapshots_path r', cleanRelativeFilePath (Separator reverse_env) ''a.txt'']
             = ''/c/models--a--b/snapshots/abc123/a.txt''
          \<and> path_Join [snapshots_path r', cleanRelativeFilePath (Separator reverse_env) ''b.txt'']
             = ''/c/models--a--b/snapshots/abc123/b.txt''"
proof -
  obtain r' w' where d: "DownloadFiles reverse_env resolved_repo [''a.txt'', ''b.txt''] empty_world
             = Some (Returns (Inr [''/c/models--a--b/snapshots/abc123/a.txt'',
                                   ''/c/models--a--b/snapshots/abc123/b.txt'']), r', w')"
    using option_triple[OF ex_batch_ok] by blast
  with ex_batch_ok_transfers have t: "transfers w'
             = [(''https://hf.co/a/b/resolve/abc123/b.txt'', ''/c/models--a--b/blobs/bbb.downloading''),
                (''https://hf.co/a/b/resolve/abc123/a.txt'', ''/c/models--a--b/blobs/aaa.downloading'')]"
    by simp
  note th = DownloadFiles_paths_in_order[OF d, THEN conjunct2, rule_format]
  from th[of 0] th[of 1] have "path_Join [snapshots_path r', cleanRelativeFilePath (Separator reverse_env) ''a.txt'']
             = ''/c/models--a--b/snapshots/abc123/a.txt''
          \<and> path_Join [snapshots_path r', cleanRelativeFilePath (Separator reverse_env) ''b.txt'']
             = ''/c/models--a--b/snapshots/abc123/b.txt''"
    by simp
  with d t show ?thesis by blast
qed

end
